theory Spec2Isabelle
  imports Complex_Main
begin

section \<open>Data model\<close>

text \<open>
  The account authentication service of the repository (\<^verbatim>\<open>src/auth/auth.service.ts\<close>)
  orchestrates three collaborators: the relational store behind Prisma (table
  \<^verbatim>\<open>user\<close>), the Redis key/value store with per-key expiry
  (\<^verbatim>\<open>RedisService\<close>) and the mailer (\<^verbatim>\<open>MailService\<close>).
  Every \<^verbatim>\<open>async\<close> method becomes a function from the state of these
  collaborators to a result and the state it leaves behind; an exception is the left
  injection of the result.
\<close>

text \<open>\<^verbatim>\<open>enum Role\<close> of \<^verbatim>\<open>common/decorators/roles.decorator.ts\<close>.\<close>

datatype Role = SUPER_ADMIN | ADMIN | MODERATOR | USER | VIEWER

text \<open>
  \<^verbatim>\<open>bcrypt.hash(password, salt)\<close> is kept symbolic: a digest is the pair of the
  salt and the password it was computed from, and \<^verbatim>\<open>bcrypt.compare\<close> holds
  exactly for the password under the digest (no collisions).
\<close>

datatype bcrypt_digest = Bcrypt (digest_salt: string) (digest_of: string)

definition bcrypt_hash :: "string \<Rightarrow> string \<Rightarrow> bcrypt_digest" where
  "bcrypt_hash pass salt = Bcrypt salt pass"

definition bcrypt_compare :: "string \<Rightarrow> bcrypt_digest \<Rightarrow> bool" where
  "bcrypt_compare pass h = (h = bcrypt_hash pass (digest_salt h))"

text \<open>
  The rows of table \<^verbatim>\<open>user\<close>, with the fields the service reads and writes.
  Three views of a row occur in the service: the projection returned by
  \<^verbatim>\<open>login\<close> (\<open>public_user\<close>), the row without its \<^verbatim>\<open>password\<close> as
  \<^verbatim>\<open>validateUser\<close> returns it (\<open>account\<close>), and the full row (\<open>user\<close>). The
  field \<^verbatim>\<open>id\<close> is named \<open>uid\<close>, since \<open>id\<close> is the identity function of HOL.
\<close>

record public_user =
  uid :: nat
  email :: string
  role :: Role
  firstName :: "string option"
  lastName :: "string option"

record account = public_user +
  isVerified :: bool
  verifiedAt :: "nat option"

record user = account +
  password :: bcrypt_digest

text \<open>
  The exceptions the service raises or lets through. \<open>JwtError\<close> is the
  \<^verbatim>\<open>Error\<close> that \<^verbatim>\<open>jwtService.sign\<close> throws when it is given an option it
  refuses.
\<close>

datatype prisma_error =
    P2002  \<comment> \<open>unique constraint failed\<close>
  | P2025  \<comment> \<open>record to update not found\<close>
  | ConnectionError

datatype error =
    BadRequestException string
  | UnauthorizedException string
  | PrismaError prisma_error
  | RedisError
  | JwtError

text \<open>The failure taxonomy of the specification, as the exceptions of the code.\<close>

abbreviation Conflict :: error where
  "Conflict \<equiv> BadRequestException ''User already exists''"

abbreviation InvalidOrExpiredCode :: error where
  "InvalidOrExpiredCode \<equiv> BadRequestException ''Invalid or expired OTP''"

fun Unauthenticated :: "error \<Rightarrow> bool" where
  "Unauthenticated (UnauthorizedException m) = True"
| "Unauthenticated (BadRequestException m) = False"
| "Unauthenticated (PrismaError p) = False"
| "Unauthenticated RedisError = False"
| "Unauthenticated JwtError = False"

text \<open>
  A domain failure is one of the HTTP exceptions the service throws itself; the errors
  of the stores are infrastructure failures.
\<close>

fun domain_failure :: "error \<Rightarrow> bool" where
  "domain_failure (BadRequestException m) = True"
| "domain_failure (UnauthorizedException m) = True"
| "domain_failure (PrismaError p) = False"
| "domain_failure RedisError = False"
| "domain_failure JwtError = False"

text \<open>
  The state of the collaborators. \<open>redis\<close> maps a key to its value and the absolute
  time (in seconds) at which it expires, if it does; \<open>clock\<close> is the current time;
  \<open>db_down\<close>, \<open>redis_down\<close> and \<open>mail_down\<close> say whether a call to the collaborator
  fails; \<open>outbox\<close> holds the mails handed to the transporter (recipient, subject,
  code) and \<open>errlog\<close> the lines written by \<^verbatim>\<open>this.logger.error\<close>.
\<close>

record state =
  users :: "user list"
  next_id :: nat
  redis :: "string \<rightharpoonup> (string \<times> nat option)"
  clock :: nat
  db_down :: bool
  redis_down :: bool
  mail_down :: bool
  outbox :: "(string \<times> string \<times> string) list"
  errlog :: "string list"

text \<open>
  Modelled from the spec: the registration of \<^verbatim>\<open>JwtModule\<close> (the module file of
  \<^verbatim>\<open>auth\<close>) is not among the sources. Following section 4.3 of the specification,
  tokens are signed with the process-wide secret \<open>JWT_SECRET\<close>, and the access token
  expires after \<open>JWT_EXPIRES_IN\<close> seconds.

  The other fields are the environment variables the service reads.
  \<open>OTP_EXPIRY_SECONDS\<close> is \<^verbatim>\<open>Number(process.env.OTP_EXPIRY_SECONDS)\<close>: a number
  of seconds, or \<open>None\<close> when the variable is unset or not a number (\<^verbatim>\<open>NaN\<close>).
  \<open>JWT_SECRET\<close> is also the secret \<^verbatim>\<open>refreshToken\<close> verifies with, and
  \<open>JWT_REFRESH_EXPIRES_IN\<close> the lifetime of a refresh token, in seconds, or \<open>None\<close>
  when the variable is unset.
\<close>

record config =
  OTP_EXPIRY_SECONDS :: "nat option"
  JWT_SECRET :: string
  JWT_EXPIRES_IN :: "nat option"
  JWT_REFRESH_EXPIRES_IN :: "nat option"

text \<open>Time passing between two calls.\<close>

definition advance :: "nat \<Rightarrow> state \<Rightarrow> state" where
  "advance d s = s\<lparr>clock := clock s + d\<rparr>"

section \<open>PrismaService: table user\<close>

text \<open>
  \<^verbatim>\<open>prisma.user.findUnique({ where: { email } })\<close> and
  \<^verbatim>\<open>prisma.user.findUnique({ where: { id } })\<close>.
\<close>

definition findUnique_email :: "string \<Rightarrow> state \<Rightarrow> error + user option" where
  "findUnique_email e s =
     (if db_down s then Inl (PrismaError ConnectionError)
      else Inr (find (\<lambda>u. email u = e) (users s)))"

definition findUnique_id :: "nat \<Rightarrow> state \<Rightarrow> error + user option" where
  "findUnique_id i s =
     (if db_down s then Inl (PrismaError ConnectionError)
      else Inr (find (\<lambda>u. uid u = i) (users s)))"

text \<open>
  Modelled from the spec: the Prisma schema of model \<^verbatim>\<open>User\<close> is not among the
  sources. Following section 3 of the specification, \<^verbatim>\<open>prisma.user.create({ data })\<close>
  assigns the identifier, sets \<open>isVerified\<close> to false and leaves \<open>verifiedAt\<close> unset,
  and refuses a second row with the same email (the column is unique).
\<close>

definition user_create ::
  "string \<Rightarrow> bcrypt_digest \<Rightarrow> string option \<Rightarrow> string option \<Rightarrow> Role \<Rightarrow> state
    \<Rightarrow> (error + user) \<times> state" where
  "user_create e h fname lname r s =
     (if db_down s then (Inl (PrismaError ConnectionError), s)
      else if find (\<lambda>u. email u = e) (users s) \<noteq> None then (Inl (PrismaError P2002), s)
      else
        let row = \<lparr>uid = next_id s, email = e, role = r, firstName = fname, lastName = lname,
                   isVerified = False, verifiedAt = None, password = h\<rparr>
        in (Inr row, s\<lparr>users := users s @ [row], next_id := Suc (next_id s)\<rparr>))"

text \<open>
  \<^verbatim>\<open>prisma.user.update({ where: { email }, data })\<close>: \<open>f\<close> writes the fields of
  \<^verbatim>\<open>data\<close>; the call throws when no row has the email.
\<close>

definition user_update :: "string \<Rightarrow> (user \<Rightarrow> user) \<Rightarrow> state \<Rightarrow> (error + user) \<times> state" where
  "user_update e f s =
     (if db_down s then (Inl (PrismaError ConnectionError), s)
      else case find (\<lambda>u. email u = e) (users s) of
        None \<Rightarrow> (Inl (PrismaError P2025), s)
      | Some u \<Rightarrow>
          (Inr (f u), s\<lparr>users := map (\<lambda>u. if email u = e then f u else u) (users s)\<rparr>))"

section \<open>RedisService\<close>

text \<open>
  \<^verbatim>\<open>set(key, value, ttl?)\<close>. The guard \<^verbatim>\<open>if (ttl)\<close> is the truthiness of
  JavaScript: an absent, \<^verbatim>\<open>NaN\<close> or zero \<open>ttl\<close> is falsy. With a truthy \<open>ttl\<close>
  the key is written with \<^verbatim>\<open>EX ttl\<close> and expires \<open>ttl\<close> seconds from now;
  otherwise it is written without expiry. Writing a key replaces its value and its
  expiry.
\<close>

definition redis_set :: "string \<Rightarrow> string \<Rightarrow> nat option \<Rightarrow> state \<Rightarrow> (error + unit) \<times> state" where
  "redis_set k v ttl s =
     (if redis_down s then (Inl RedisError, s)
      else case ttl of
        None \<Rightarrow> (Inr (), s\<lparr>redis := (redis s)(k \<mapsto> (v, None))\<rparr>)
      | Some t \<Rightarrow>
          if t \<noteq> 0 then (Inr (), s\<lparr>redis := (redis s)(k \<mapsto> (v, Some (clock s + t)))\<rparr>)
          else (Inr (), s\<lparr>redis := (redis s)(k \<mapsto> (v, None))\<rparr>))"

text \<open>\<^verbatim>\<open>get(key)\<close>: the value, or \<^verbatim>\<open>null\<close> for a key that is absent or expired.\<close>

definition redis_get :: "string \<Rightarrow> state \<Rightarrow> error + string option" where
  "redis_get k s =
     (if redis_down s then Inl RedisError
      else case redis s k of
        None \<Rightarrow> Inr None
      | Some (v, None) \<Rightarrow> Inr (Some v)
      | Some (v, Some t) \<Rightarrow> (if clock s < t then Inr (Some v) else Inr None))"

text \<open>\<^verbatim>\<open>del(key)\<close>.\<close>

definition redis_del :: "string \<Rightarrow> state \<Rightarrow> (error + unit) \<times> state" where
  "redis_del k s =
     (if redis_down s then (Inl RedisError, s)
      else (Inr (), s\<lparr>redis := (redis s)(k := None)\<rparr>))"

section \<open>MailService\<close>

text \<open>
  \<^verbatim>\<open>this.mail.send...(email, otp).catch(err => this.logger.error(...))\<close>: the
  send is not awaited; its failure is written to the log and nothing else.
\<close>

definition send_and_catch :: "string \<Rightarrow> string \<Rightarrow> string \<Rightarrow> string \<Rightarrow> state \<Rightarrow> state" where
  "send_and_catch rcpt subject otp line s =
     (if mail_down s then s\<lparr>errlog := errlog s @ [line]\<rparr>
      else s\<lparr>outbox := outbox s @ [(rcpt, subject, otp)]\<rparr>)"

section \<open>JwtService\<close>

text \<open>
  The claims of a token, \<^verbatim>\<open>{ sub, email, role, isVerified }\<close>, and a token: either
  a string that does not decode, or claims with their issue time, their expiry and the
  key that signed them (signatures are symbolic: a token verifies under a key exactly
  when it was signed with it).
\<close>

datatype jwt_payload =
  Payload (sub: nat) (payload_email: string) (payload_role: Role) (payload_isVerified: bool)

datatype token =
    Malformed string
  | Signed jwt_payload nat "nat option" string

text \<open>
  A token signed at time \<open>now\<close> with a lifetime, or with none. This is
  \<^verbatim>\<open>jwtService.sign(payload)\<close> under the options of the module, whose lifetime
  may be absent.
\<close>

definition jwt_sign :: "string \<Rightarrow> nat option \<Rightarrow> nat \<Rightarrow> jwt_payload \<Rightarrow> token" where
  "jwt_sign secret expiresIn now p =
     Signed p now (case expiresIn of None \<Rightarrow> None | Some d \<Rightarrow> Some (now + d)) secret"

text \<open>
  \<^verbatim>\<open>jwtService.sign(payload, { expiresIn })\<close> at time \<open>now\<close>, with the option
  given by the caller. The option overrides that of the module; the call throws when
  the key \<^verbatim>\<open>expiresIn\<close> is present with the value \<^verbatim>\<open>undefined\<close>.
\<close>

definition jwt_sign_expiresIn ::
  "string \<Rightarrow> nat option \<Rightarrow> nat \<Rightarrow> jwt_payload \<Rightarrow> error + token" where
  "jwt_sign_expiresIn secret expiresIn now p =
     (case expiresIn of
        None \<Rightarrow> Inl JwtError
      | Some d \<Rightarrow> Inr (jwt_sign secret (Some d) now p))"

text \<open>
  \<^verbatim>\<open>jwtService.verify(token, { secret })\<close> at time \<open>now\<close>: \<open>None\<close> stands for
  the exception it throws on a malformed token, a wrong signature or an expired token.
\<close>

fun jwt_verify :: "string \<Rightarrow> nat \<Rightarrow> token \<Rightarrow> jwt_payload option" where
  "jwt_verify secret now (Malformed x) = None"
| "jwt_verify secret now (Signed p issued None k) = (if k = secret then Some p else None)"
| "jwt_verify secret now (Signed p issued (Some t) k) =
     (if k = secret \<and> now < t then Some p else None)"

text \<open>The subject a token carries, if it decodes.\<close>

fun token_sub :: "token \<Rightarrow> nat option" where
  "token_sub (Malformed x) = None"
| "token_sub (Signed p issued t k) = Some (sub p)"

section \<open>AuthService\<close>

text \<open>
  The random draws of one call: the salt of \<^verbatim>\<open>bcrypt.genSalt()\<close> and the value
  of \<^verbatim>\<open>Math.random()\<close>.
\<close>

record draws =
  salt :: string
  random :: rat

text \<open>\<^verbatim>\<open>Number.prototype.toString()\<close> of a natural number.\<close>

definition digit_char :: "nat \<Rightarrow> char" where
  "digit_char d = ''0123456789'' ! d"

fun string_of_nat :: "nat \<Rightarrow> string" where
  "string_of_nat n =
     (if n < 10 then [digit_char n] else string_of_nat (n div 10) @ [digit_char (n mod 10)])"

declare string_of_nat.simps [simp del]

text \<open>\<^verbatim>\<open>Math.floor(100000 + Math.random() * 900000).toString()\<close>.\<close>

definition generateOtp :: "rat \<Rightarrow> string" where
  "generateOtp r = string_of_nat (nat \<lfloor>100000 + r * 900000\<rfloor>)"

text \<open>The keys \<^verbatim>\<open>`verify_email:${email}`\<close> and \<^verbatim>\<open>`reset_password:${email}`\<close>.\<close>

definition verify_key :: "string \<Rightarrow> string" where
  "verify_key e = ''verify_email:'' @ e"

definition reset_key :: "string \<Rightarrow> string" where
  "reset_key e = ''reset_password:'' @ e"

text \<open>
  \<^verbatim>\<open>register(dto)\<close>, in the three stretches between its awaits on the stores: the
  lookup of the email (lines 35 to 40), the creation of the row (lines 42 to 53), and
  the storing and mailing of the code (lines 55 to 70). The fields of the DTO are the
  arguments \<open>em\<close>, \<open>pw\<close>, \<open>fname\<close> and \<open>lname\<close>.
\<close>

definition register_lookup :: "string \<Rightarrow> state \<Rightarrow> error + unit" where
  "register_lookup em s =
     (case findUnique_email em s of
        Inl e \<Rightarrow> Inl e
      | Inr (Some u) \<Rightarrow> Inl (BadRequestException ''User already exists'')
      | Inr None \<Rightarrow> Inr ())"

definition register_create ::
  "draws \<Rightarrow> string \<Rightarrow> string \<Rightarrow> string option \<Rightarrow> string option \<Rightarrow> state
    \<Rightarrow> (error + user) \<times> state" where
  "register_create rnd em pw fname lname s =
     user_create em (bcrypt_hash pw (salt rnd)) fname lname USER s"

definition register_otp :: "config \<Rightarrow> draws \<Rightarrow> user \<Rightarrow> state \<Rightarrow> (error + string) \<times> state" where
  "register_otp cfg rnd u s =
     (let otp = generateOtp (random rnd) in
      case redis_set (verify_key (email u)) otp (OTP_EXPIRY_SECONDS cfg) s of
        (Inl e, s1) \<Rightarrow> (Inl e, s1)
      | (Inr _, s1) \<Rightarrow>
          (Inr ''User registered. Please check email for OTP.'',
           send_and_catch (email u) ''Verify your email'' otp
             (''Failed to send verification email to '' @ email u) s1))"

definition register ::
  "config \<Rightarrow> draws \<Rightarrow> string \<Rightarrow> string \<Rightarrow> string option \<Rightarrow> string option \<Rightarrow> state
    \<Rightarrow> (error + string) \<times> state" where
  "register cfg rnd em pw fname lname s =
     (case register_lookup em s of
        Inl e \<Rightarrow> (Inl e, s)
      | Inr _ \<Rightarrow>
          (case register_create rnd em pw fname lname s of
             (Inl e, s1) \<Rightarrow> (Inl e, s1)
           | (Inr u, s1) \<Rightarrow> register_otp cfg rnd u s1))"

text \<open>
  \<^verbatim>\<open>validateUser(email, pass)\<close>: the row without its password, or \<^verbatim>\<open>null\<close>.
\<close>

definition validateUser :: "string \<Rightarrow> string \<Rightarrow> state \<Rightarrow> error + account option" where
  "validateUser em pass s =
     (case findUnique_email em s of
        Inl e \<Rightarrow> Inl e
      | Inr None \<Rightarrow> Inr None
      | Inr (Some u) \<Rightarrow>
          if bcrypt_compare pass (password u) then Inr (Some (account.truncate u))
          else Inr None)"

text \<open>
  \<^verbatim>\<open>login(user)\<close>. The method reads the fields of \<open>account\<close> only, and is called
  with the result of \<^verbatim>\<open>validateUser\<close> (by the controller) and with a full row (by
  \<^verbatim>\<open>refreshToken\<close>). The refresh token is signed with
  \<^verbatim>\<open>{ expiresIn: process.env.JWT_REFRESH_EXPIRES_IN }\<close>: when the variable is
  unset the option is \<^verbatim>\<open>undefined\<close>, \<^verbatim>\<open>sign\<close> throws and the method
  rejects.
\<close>

datatype login_result =
  LoginResult (access_token: token) (refresh_token: token) (user_of: public_user)

definition login :: "config \<Rightarrow> 'a account_scheme \<Rightarrow> state \<Rightarrow> error + login_result" where
  "login cfg u s =
     (if \<not> isVerified u then Inl (UnauthorizedException ''Email not verified'')
      else
        let payload = Payload (uid u) (email u) (role u) (isVerified u);
            accessToken = jwt_sign (JWT_SECRET cfg) (JWT_EXPIRES_IN cfg) (clock s) payload
        in case jwt_sign_expiresIn (JWT_SECRET cfg) (JWT_REFRESH_EXPIRES_IN cfg) (clock s)
                  payload of
             Inl e \<Rightarrow> Inl e
           | Inr refreshToken \<Rightarrow>
               Inr (LoginResult accessToken refreshToken (public_user.truncate u)))"

text \<open>
  Modelled from the spec: the guard of \<^verbatim>\<open>POST /auth/login\<close>
  (\<^verbatim>\<open>LocalAuthGuard\<close> and its strategy) is not among the sources. Following
  section 4.1 of the specification (ValidateCredentials), it calls
  \<^verbatim>\<open>validateUser\<close> and fails with \<open>Unauthenticated\<close> when that returns
  \<^verbatim>\<open>null\<close>; the controller then calls \<^verbatim>\<open>login\<close> on the account.
\<close>

definition login_route :: "config \<Rightarrow> string \<Rightarrow> string \<Rightarrow> state \<Rightarrow> error + login_result" where
  "login_route cfg em pass s =
     (case validateUser em pass s of
        Inl e \<Rightarrow> Inl e
      | Inr None \<Rightarrow> Inl (UnauthorizedException ''Unauthorized'')
      | Inr (Some a) \<Rightarrow> login cfg a s)"

text \<open>\<^verbatim>\<open>!storedOtp\<close>: \<^verbatim>\<open>null\<close> and the empty string are falsy.\<close>

definition falsy :: "string option \<Rightarrow> bool" where
  "falsy v = (v = None \<or> v = Some [])"

text \<open>\<^verbatim>\<open>verifyEmail(dto)\<close>, with \<open>em\<close> and \<open>otp\<close> the fields of the DTO.\<close>

definition verifyEmail :: "string \<Rightarrow> string \<Rightarrow> state \<Rightarrow> (error + string) \<times> state" where
  "verifyEmail em otp s =
     (case redis_get (verify_key em) s of
        Inl e \<Rightarrow> (Inl e, s)
      | Inr storedOtp \<Rightarrow>
          if falsy storedOtp \<or> storedOtp \<noteq> Some otp
          then (Inl (BadRequestException ''Invalid or expired OTP''), s)
          else
            (case user_update em (\<lambda>u. u\<lparr>isVerified := True, verifiedAt := Some (clock s)\<rparr>) s of
               (Inl e, s1) \<Rightarrow> (Inl e, s1)
             | (Inr _, s1) \<Rightarrow>
                 (case redis_del (verify_key em) s1 of
                    (Inl e, s2) \<Rightarrow> (Inl e, s2)
                  | (Inr _, s2) \<Rightarrow> (Inr ''Email verified successfully'', s2))))"

text \<open>\<^verbatim>\<open>forgotPassword(dto)\<close>.\<close>

definition forgotPassword :: "config \<Rightarrow> draws \<Rightarrow> string \<Rightarrow> state \<Rightarrow> (error + string) \<times> state" where
  "forgotPassword cfg rnd em s =
     (case findUnique_email em s of
        Inl e \<Rightarrow> (Inl e, s)
      | Inr None \<Rightarrow> (Inr ''If email exists, OTP sent'', s)
      | Inr (Some u) \<Rightarrow>
          (let otp = generateOtp (random rnd) in
           case redis_set (reset_key em) otp (OTP_EXPIRY_SECONDS cfg) s of
             (Inl e, s1) \<Rightarrow> (Inl e, s1)
           | (Inr _, s1) \<Rightarrow>
               (Inr ''If email exists, OTP sent'',
                send_and_catch em ''Reset your password'' otp
                  (''Failed to send password reset email to '' @ em) s1)))"

text \<open>\<^verbatim>\<open>resetPassword(dto)\<close>.\<close>

definition resetPassword ::
  "draws \<Rightarrow> string \<Rightarrow> string \<Rightarrow> string \<Rightarrow> state \<Rightarrow> (error + string) \<times> state" where
  "resetPassword rnd em otp newPassword s =
     (case redis_get (reset_key em) s of
        Inl e \<Rightarrow> (Inl e, s)
      | Inr storedOtp \<Rightarrow>
          if falsy storedOtp \<or> storedOtp \<noteq> Some otp
          then (Inl (BadRequestException ''Invalid or expired OTP''), s)
          else
            (case user_update em (\<lambda>u. u\<lparr>password := bcrypt_hash newPassword (salt rnd)\<rparr>) s of
               (Inl e, s1) \<Rightarrow> (Inl e, s1)
             | (Inr _, s1) \<Rightarrow>
                 (case redis_del (reset_key em) s1 of
                    (Inl e, s2) \<Rightarrow> (Inl e, s2)
                  | (Inr _, s2) \<Rightarrow> (Inr ''Password reset successfully'', s2))))"

text \<open>
  \<^verbatim>\<open>refreshToken(dto)\<close>. Whatever is thrown inside the \<^verbatim>\<open>try\<close> block (by
  \<^verbatim>\<open>verify\<close>, by the awaited lookup, or by the \<^verbatim>\<open>throw\<close> for a missing
  user) is caught and replaced by \<^verbatim>\<open>UnauthorizedException('Invalid refresh token')\<close>.
  The promise of \<^verbatim>\<open>this.login(user)\<close> is returned without being awaited, so its
  rejection is not caught.
\<close>

definition refreshToken :: "config \<Rightarrow> token \<Rightarrow> state \<Rightarrow> error + login_result" where
  "refreshToken cfg tok s =
     (case jwt_verify (JWT_SECRET cfg) (clock s) tok of
        None \<Rightarrow> Inl (UnauthorizedException ''Invalid refresh token'')
      | Some payload \<Rightarrow>
          (case findUnique_id (sub payload) s of
             Inl e \<Rightarrow> Inl (UnauthorizedException ''Invalid refresh token'')
           | Inr None \<Rightarrow> Inl (UnauthorizedException ''Invalid refresh token'')
           | Inr (Some u) \<Rightarrow> login cfg u s))"

section \<open>Two registrations at once\<close>

text \<open>
  A call of \<^verbatim>\<open>register\<close> gives up control at each \<^verbatim>\<open>await\<close>, so another
  call may run between its lookup and its creation of the row. A call in progress is at
  one of the stretches of \<open>register\<close>, or has returned; \<open>register_step\<close> runs it to
  its next await on a store.
\<close>

datatype register_call =
    AtLookup
  | AtCreate
  | AtOtp user
  | Returned "error + string"

definition register_step ::
  "config \<Rightarrow> draws \<Rightarrow> string \<Rightarrow> string \<Rightarrow> string option \<Rightarrow> string option
    \<Rightarrow> register_call \<Rightarrow> state \<Rightarrow> register_call \<times> state" where
  "register_step cfg rnd em pw fname lname c s =
     (case c of
        AtLookup \<Rightarrow>
          (case register_lookup em s of
             Inl e \<Rightarrow> (Returned (Inl e), s)
           | Inr _ \<Rightarrow> (AtCreate, s))
      | AtCreate \<Rightarrow>
          (case register_create rnd em pw fname lname s of
             (Inl e, s1) \<Rightarrow> (Returned (Inl e), s1)
           | (Inr u, s1) \<Rightarrow> (AtOtp u, s1))
      | AtOtp u \<Rightarrow> (case register_otp cfg rnd u s of (r, s1) \<Rightarrow> (Returned r, s1))
      | Returned r \<Rightarrow> (Returned r, s))"

text \<open>
  Two calls \<open>A\<close> and \<open>B\<close> under a schedule: each entry of the schedule says which
  call takes the next step (\<open>True\<close> for \<open>A\<close>).
\<close>

fun run_two ::
  "(register_call \<Rightarrow> state \<Rightarrow> register_call \<times> state)
    \<Rightarrow> (register_call \<Rightarrow> state \<Rightarrow> register_call \<times> state)
    \<Rightarrow> bool list \<Rightarrow> register_call \<times> register_call \<times> state
    \<Rightarrow> register_call \<times> register_call \<times> state" where
  "run_two stepA stepB [] conf = conf"
| "run_two stepA stepB (pick # sched) (a, b, s) =
     (if pick then (case stepA a s of (a', s') \<Rightarrow> run_two stepA stepB sched (a', b, s'))
      else (case stepB b s of (b', s') \<Rightarrow> run_two stepA stepB sched (a, b', s')))"

text \<open>
  What a call for an email has achieved: it has created the row (it goes on to store
  the code, or has returned the acknowledgement), it has not reached the creation, or
  it has not created and will not (it is before the creation, or has failed with
  \<open>Conflict\<close> or with the uniqueness error of the store). \<open>race_inv\<close> relates the
  two calls to the table: while no row has the email both calls are before the
  creation, and once a row has it exactly one call has created it.
\<close>

fun created_row :: "register_call \<Rightarrow> bool" where
  "created_row (AtOtp u) = True"
| "created_row (Returned r) = (r = Inr ''User registered. Please check email for OTP.'')"
| "created_row AtLookup = False"
| "created_row AtCreate = False"

fun before_create :: "register_call \<Rightarrow> bool" where
  "before_create AtLookup = True"
| "before_create AtCreate = True"
| "before_create (AtOtp u) = False"
| "before_create (Returned r) = False"

fun not_created :: "register_call \<Rightarrow> bool" where
  "not_created AtLookup = True"
| "not_created AtCreate = True"
| "not_created (AtOtp u) = False"
| "not_created (Returned r) = (r = Inl Conflict \<or> r = Inl (PrismaError P2002))"

definition race_inv :: "string \<Rightarrow> register_call \<times> register_call \<times> state \<Rightarrow> bool" where
  "race_inv em conf =
     (case conf of (a, b, s) \<Rightarrow>
        \<not> db_down s \<and> \<not> redis_down s \<and>
        (if find (\<lambda>u. email u = em) (users s) = None then before_create a \<and> before_create b
         else (created_row a \<and> not_created b) \<or> (created_row b \<and> not_created a)))"

section \<open>Well-formed code stores\<close>

text \<open>
  The states the service itself produces: every stored value is a non-empty string, and
  a code is stored only under the key of an email that has an account (the service
  writes a code after it has created or found the row, and never deletes a row).
\<close>

definition codes_wf :: "state \<Rightarrow> bool" where
  "codes_wf s \<longleftrightarrow>
     (\<forall>k v x. redis s k = Some (v, x) \<longrightarrow> v \<noteq> []) \<and>
     (\<forall>e v x. redis s (verify_key e) = Some (v, x) \<longrightarrow>
        find (\<lambda>u. email u = e) (users s) \<noteq> None) \<and>
     (\<forall>e v x. redis s (reset_key e) = Some (v, x) \<longrightarrow>
        find (\<lambda>u. email u = e) (users s) \<noteq> None)"

section \<open>A run of the service\<close>

text \<open>
  An empty deployment at time 1000, a configuration with a code lifetime of 300 seconds,
  and the state after \<^verbatim>\<open>a@x.com\<close> has registered in it.
\<close>

definition example_state :: state where
  "example_state = \<lparr>users = [], next_id = 1, redis = Map.empty, clock = 1000, db_down = False,
     redis_down = False, mail_down = False, outbox = [], errlog = []\<rparr>"

definition example_config :: config where
  "example_config = \<lparr>OTP_EXPIRY_SECONDS = Some 300, JWT_SECRET = ''secret'',
     JWT_EXPIRES_IN = Some 900, JWT_REFRESH_EXPIRES_IN = Some 604800\<rparr>"

definition example_draws :: draws where
  "example_draws = \<lparr>salt = ''s1'', random = 1/2\<rparr>"

definition example_registered :: state where
  "example_registered =
     snd (register example_config example_draws ''a@x.com'' ''secret1'' None None example_state)"

text \<open>
  The state after \<^verbatim>\<open>a@x.com\<close> has verified the email with the stored code, and
  the refresh token that a login in this state returns.
\<close>

definition example_verified :: state where
  "example_verified = snd (verifyEmail ''a@x.com'' ''550000'' example_registered)"

definition example_refresh_token :: token where
  "example_refresh_token =
     Signed (Payload 1 ''a@x.com'' USER True) 1000 (Some 605800) ''secret''"

text \<open>
  The state after \<^verbatim>\<open>a@x.com\<close> has then asked for a password reset, with the draws
  of that call.
\<close>

definition example_draws_reset :: draws where
  "example_draws_reset = \<lparr>salt = ''s2'', random = 1/4\<rparr>"

definition example_forgot :: state where
  "example_forgot =
     snd (forgotPassword example_config example_draws_reset ''a@x.com'' example_verified)"

section \<open>Reachable states\<close>

text \<open>
  The states of a deployment: it starts with no account and no code; then the
  operations of the service run one after the other, time passes, and the collaborators
  go down and come back. (\<^verbatim>\<open>login\<close>, \<^verbatim>\<open>validateUser\<close> and \<^verbatim>\<open>refreshToken\<close> write
  nothing.)
\<close>

inductive reachable :: "config \<Rightarrow> state \<Rightarrow> bool" for cfg :: config where
  start: "users s = [] \<Longrightarrow> redis s = Map.empty \<Longrightarrow> reachable cfg s"
| after_register:
    "reachable cfg s \<Longrightarrow> reachable cfg (snd (register cfg rnd em pw fname lname s))"
| after_verifyEmail: "reachable cfg s \<Longrightarrow> reachable cfg (snd (verifyEmail em otp s))"
| after_forgotPassword:
    "reachable cfg s \<Longrightarrow> reachable cfg (snd (forgotPassword cfg rnd em s))"
| after_resetPassword:
    "reachable cfg s \<Longrightarrow> reachable cfg (snd (resetPassword rnd em otp newPassword s))"
| after_time: "reachable cfg s \<Longrightarrow> reachable cfg (advance d s)"
| after_outage:
    "reachable cfg s \<Longrightarrow> reachable cfg (s\<lparr>db_down := a, redis_down := b, mail_down := c\<rparr>)"

section \<open>Evaluating the run\<close>

lemma generateOtp_half: "generateOtp (1/2) = ''550000''"
  by (simp add: generateOtp_def string_of_nat.simps digit_char_def)

lemma example_register:
  "register example_config example_draws ''a@x.com'' ''secret1'' None None example_state =
     (Inr ''User registered. Please check email for OTP.'',
      \<lparr>users = [\<lparr>uid = 1, email = ''a@x.com'', role = USER, firstName = None, lastName = None,
                 isVerified = False, verifiedAt = None, password = Bcrypt ''s1'' ''secret1''\<rparr>],
       next_id = 2,
       redis = [verify_key ''a@x.com'' \<mapsto> (''550000'', Some 1300)],
       clock = 1000, db_down = False, redis_down = False, mail_down = False,
       outbox = [(''a@x.com'', ''Verify your email'', ''550000'')], errlog = []\<rparr>)"
  by (simp add: register_def register_lookup_def register_create_def register_otp_def
      findUnique_email_def user_create_def redis_set_def send_and_catch_def bcrypt_hash_def
      example_state_def example_config_def example_draws_def generateOtp_half Let_def)

lemma example_registered_eq:
  "example_registered =
      \<lparr>users = [\<lparr>uid = 1, email = ''a@x.com'', role = USER, firstName = None, lastName = None,
                 isVerified = False, verifiedAt = None, password = Bcrypt ''s1'' ''secret1''\<rparr>],
       next_id = 2,
       redis = [verify_key ''a@x.com'' \<mapsto> (''550000'', Some 1300)],
       clock = 1000, db_down = False, redis_down = False, mail_down = False,
       outbox = [(''a@x.com'', ''Verify your email'', ''550000'')], errlog = []\<rparr>"
  by (simp add: example_registered_def example_register)

section \<open>Failed code checks\<close>

text \<open>
  Claim C10. When \<^verbatim>\<open>verifyEmail\<close> or \<^verbatim>\<open>resetPassword\<close> fails with
  \<open>InvalidOrExpiredCode\<close>, the state it leaves is the state it started from: the
  comparison of the codes precedes every write, so the rows of the accounts are
  unchanged and the stored code is neither deleted nor overwritten.
\<close>

theorem failed_code_check_leaves_state:
  "(fst (verifyEmail em otp s) = Inl InvalidOrExpiredCode \<longrightarrow> snd (verifyEmail em otp s) = s) \<and>
   (fst (resetPassword rnd em' otp' newPassword s') = Inl InvalidOrExpiredCode \<longrightarrow>
      snd (resetPassword rnd em' otp' newPassword s') = s')"
proof (intro conjI impI)
  assume "fst (verifyEmail em otp s) = Inl InvalidOrExpiredCode"
  then show "snd (verifyEmail em otp s) = s"
    unfolding verifyEmail_def user_update_def redis_del_def
    by (auto split: sum.splits option.splits if_splits prod.splits)
next
  assume "fst (resetPassword rnd em' otp' newPassword s') = Inl InvalidOrExpiredCode"
  then show "snd (resetPassword rnd em' otp' newPassword s') = s'"
    unfolding resetPassword_def user_update_def redis_del_def
    by (auto split: sum.splits option.splits if_splits prod.splits)
qed

theorem failed_code_check_leaves_state_witness:
  "fst (verifyEmail ''a@x.com'' ''000000'' example_registered) = Inl InvalidOrExpiredCode \<and>
   snd (verifyEmail ''a@x.com'' ''000000'' example_registered) = example_registered \<and>
   redis_get (verify_key ''a@x.com'') (snd (verifyEmail ''a@x.com'' ''000000'' example_registered))
     = Inr (Some ''550000'') \<and>
   fst (resetPassword example_draws ''a@x.com'' ''550000'' ''secret2'' example_registered)
     = Inl InvalidOrExpiredCode \<and>
   snd (resetPassword example_draws ''a@x.com'' ''550000'' ''secret2'' example_registered)
     = example_registered"
proof -
  have v: "fst (verifyEmail ''a@x.com'' ''000000'' example_registered) = Inl InvalidOrExpiredCode"
    by (simp add: verifyEmail_def redis_get_def falsy_def example_registered_eq)
  have r: "fst (resetPassword example_draws ''a@x.com'' ''550000'' ''secret2'' example_registered)
      = Inl InvalidOrExpiredCode"
    by (simp add: resetPassword_def redis_get_def falsy_def example_registered_eq
        verify_key_def reset_key_def)
  have g: "redis_get (verify_key ''a@x.com'') example_registered = Inr (Some ''550000'')"
    by (simp add: redis_get_def example_registered_eq)
  from v r g
    failed_code_check_leaves_state [where em = "''a@x.com''" and otp = "''000000''"
      and s = example_registered and rnd = example_draws and em' = "''a@x.com''"
      and otp' = "''550000''" and newPassword = "''secret2''" and s' = example_registered]
  show ?thesis by simp
qed

section \<open>Keys, codes and lookups\<close>

lemma verify_key_inj [simp]: "verify_key a = verify_key b \<longleftrightarrow> a = b"
  by (simp add: verify_key_def)

lemma reset_key_inj [simp]: "reset_key a = reset_key b \<longleftrightarrow> a = b"
  by (simp add: reset_key_def)

lemma verify_key_neq_reset_key [simp]:
  "verify_key a \<noteq> reset_key b" "reset_key b \<noteq> verify_key a"
  by (simp_all add: verify_key_def reset_key_def)

lemma string_of_nat_nonempty [simp]: "string_of_nat n \<noteq> []"
  by (subst string_of_nat.simps) simp

lemma generateOtp_nonempty [simp]: "generateOtp r \<noteq> []"
  by (simp add: generateOtp_def)

lemma find_email_append:
  "find (\<lambda>u. email u = e) (xs @ [x]) =
     (case find (\<lambda>u. email u = e) xs of Some y \<Rightarrow> Some y
      | None \<Rightarrow> if email x = e then Some x else None)"
  by (induction xs) auto

lemma find_email_update:
  assumes "\<And>u. email (f u) = email u"
  shows "find (\<lambda>u. email u = e) (map (\<lambda>u. if email u = e' then f u else u) xs) =
     map_option (\<lambda>u. if email u = e' then f u else u) (find (\<lambda>u. email u = e) xs)"
  using assms by (induction xs) auto

section \<open>Expiry of one-time codes\<close>

text \<open>
  Claim C9, for a positive lifetime. A code stored with a lifetime of \<open>T > 0\<close> seconds
  is absent once more than \<open>T\<close> seconds have passed: \<^verbatim>\<open>get\<close> returns what it
  returns for the key had it never been set. This holds for \<^verbatim>\<open>RedisService.set\<close>
  and for the code \<^verbatim>\<open>register\<close> stores under the configured lifetime.
\<close>

theorem code_absent_after_ttl:
  assumes "0 < T" and "T < d" and "\<not> redis_down s" and "OTP_EXPIRY_SECONDS cfg = Some T"
  shows "redis_get k (advance d (snd (redis_set k v (Some T) s))) = Inr None \<and>
     redis_get k (advance d (snd (redis_set k v (Some T) s))) =
       redis_get k (advance d (s\<lparr>redis := (redis s)(k := None)\<rparr>)) \<and>
     (fst (register cfg rnd em pw fname lname s)
         = Inr ''User registered. Please check email for OTP.'' \<longrightarrow>
      redis_get (verify_key em) (advance d (snd (register cfg rnd em pw fname lname s)))
         = Inr None)"
proof (intro conjI impI)
  show g: "redis_get k (advance d (snd (redis_set k v (Some T) s))) = Inr None"
    using assms by (simp add: redis_get_def redis_set_def advance_def)
  show "redis_get k (advance d (snd (redis_set k v (Some T) s))) =
       redis_get k (advance d (s\<lparr>redis := (redis s)(k := None)\<rparr>))"
    using assms by (simp add: g) (simp add: redis_get_def advance_def)
next
  assume "fst (register cfg rnd em pw fname lname s)
         = Inr ''User registered. Please check email for OTP.''"
  then show "redis_get (verify_key em) (advance d (snd (register cfg rnd em pw fname lname s)))
     = Inr None"
    using assms
    by (auto simp: register_def register_lookup_def register_create_def register_otp_def
        user_create_def redis_set_def redis_get_def advance_def send_and_catch_def Let_def
        findUnique_email_def
        split: sum.splits option.splits if_splits prod.splits)
qed

theorem code_absent_after_ttl_witness:
  "(0::nat) < 300 \<and> (300::nat) < 301 \<and> \<not> redis_down example_state \<and>
   OTP_EXPIRY_SECONDS example_config = Some 300 \<and>
   fst (register example_config example_draws ''a@x.com'' ''secret1'' None None example_state)
     = Inr ''User registered. Please check email for OTP.'' \<and>
   redis_get (verify_key ''a@x.com'') (advance 299 example_registered) = Inr (Some ''550000'') \<and>
   redis_get (verify_key ''a@x.com'') (advance 301 example_registered) = Inr None \<and>
   redis_get (verify_key ''a@x.com'') (advance 301 example_registered) =
      redis_get (verify_key ''a@x.com'') (advance 301 example_state)"
proof -
  have h: "\<not> redis_down example_state" "OTP_EXPIRY_SECONDS example_config = Some 300"
    by (simp_all add: example_state_def example_config_def)
  have ok: "fst (register example_config example_draws ''a@x.com'' ''secret1'' None None
      example_state) = Inr ''User registered. Please check email for OTP.''"
    by (simp add: example_register)
  have live: "redis_get (verify_key ''a@x.com'') (advance 299 example_registered)
      = Inr (Some ''550000'')"
    by (simp add: redis_get_def advance_def example_registered_eq)
  have never: "redis_get (verify_key ''a@x.com'') (advance 301 example_state) = Inr None"
    by (simp add: redis_get_def advance_def example_state_def)
  from code_absent_after_ttl [of 300 301 example_state example_config
      "verify_key ''a@x.com''" "''550000''" example_draws "''a@x.com''" "''secret1''" None None]
    h ok live never
  show ?thesis by (simp add: example_registered_def)
qed

text \<open>
  With a configured lifetime of zero seconds the guard \<^verbatim>\<open>if (ttl)\<close> takes the
  branch without \<^verbatim>\<open>EX\<close>: one second later the code is still returned.
\<close>

theorem code_kept_with_zero_ttl:
  "redis_get ''verify_email:a@x.com''
     (advance 1 (snd (redis_set ''verify_email:a@x.com'' ''550000'' (Some 0) example_state)))
     = Inr (Some ''550000'') \<and>
   redis_get (verify_key ''a@x.com'')
     (advance 1 (snd (register (example_config\<lparr>OTP_EXPIRY_SECONDS := Some 0\<rparr>) example_draws
        ''a@x.com'' ''secret1'' None None example_state)))
     = Inr (Some ''550000'')"
  by (simp add: register_def register_lookup_def register_create_def register_otp_def
      findUnique_email_def user_create_def redis_set_def redis_get_def send_and_catch_def
      advance_def example_state_def example_config_def example_draws_def generateOtp_half
      Let_def)

section \<open>The acknowledgement of forgotPassword\<close>

text \<open>
  Claim C5, while the code store answers. Two acknowledgements returned by
  \<^verbatim>\<open>forgotPassword\<close> are equal, whatever the emails and whether or not they
  have an account. While the code store answers, the whole response is the same for any
  two emails; when the database answers too, it is the acknowledgement
  \<^verbatim>\<open>If email exists, OTP sent\<close>. The draws and a failing mailer do not change
  it.
\<close>

theorem forgotPassword_same_acknowledgement:
  "(fst (forgotPassword cfg rnd e s) = Inr a \<and> fst (forgotPassword cfg rnd' e' s) = Inr b \<longrightarrow>
      a = b) \<and>
   (\<not> redis_down s \<longrightarrow>
      fst (forgotPassword cfg rnd e s) = fst (forgotPassword cfg rnd' e' s)) \<and>
   (\<not> redis_down s \<and> \<not> db_down s \<longrightarrow>
      fst (forgotPassword cfg rnd e s) = Inr ''If email exists, OTP sent'')"
proof -
  have ack: "r = ''If email exists, OTP sent''" if "fst (forgotPassword cfg rnd e s) = Inr r"
    for rnd e r
    using that unfolding forgotPassword_def Let_def
    by (simp split: sum.splits option.splits prod.splits)
  have up: "fst (forgotPassword cfg rnd e s) =
      (if db_down s then Inl (PrismaError ConnectionError) else Inr ''If email exists, OTP sent'')"
    if "\<not> redis_down s" for rnd e
    using that
    by (simp add: forgotPassword_def findUnique_email_def redis_set_def Let_def
        split: option.splits)
  show ?thesis
  proof (intro conjI impI)
    assume "fst (forgotPassword cfg rnd e s) = Inr a \<and> fst (forgotPassword cfg rnd' e' s) = Inr b"
    then show "a = b"
      using ack [of rnd e a] ack [of rnd' e' b] by simp
  next
    assume "\<not> redis_down s"
    then show "fst (forgotPassword cfg rnd e s) = fst (forgotPassword cfg rnd' e' s)"
      by (simp add: up)
  next
    assume "\<not> redis_down s \<and> \<not> db_down s"
    then show "fst (forgotPassword cfg rnd e s) = Inr ''If email exists, OTP sent''"
      by (simp add: up)
  qed
qed

theorem forgotPassword_same_acknowledgement_witness:
  "\<not> redis_down example_registered \<and>
   find (\<lambda>u. email u = ''a@x.com'') (users example_registered) \<noteq> None \<and>
   find (\<lambda>u. email u = ''b@x.com'') (users example_registered) = None \<and>
   fst (forgotPassword example_config example_draws ''a@x.com'' example_registered) =
   fst (forgotPassword example_config example_draws ''b@x.com'' example_registered) \<and>
   fst (forgotPassword example_config example_draws ''b@x.com'' example_registered) =
     Inr ''If email exists, OTP sent'' \<and>
   snd (forgotPassword example_config example_draws ''a@x.com'' example_registered) \<noteq>
   snd (forgotPassword example_config example_draws ''b@x.com'' example_registered)"
proof -
  have h: "\<not> redis_down example_registered" "\<not> db_down example_registered"
    by (simp_all add: example_registered_eq)
  have f: "find (\<lambda>u. email u = ''a@x.com'') (users example_registered) \<noteq> None"
    "find (\<lambda>u. email u = ''b@x.com'') (users example_registered) = None"
    by (simp_all add: example_registered_eq)
  have d: "snd (forgotPassword example_config example_draws ''a@x.com'' example_registered) \<noteq>
   snd (forgotPassword example_config example_draws ''b@x.com'' example_registered)"
    by (simp add: forgotPassword_def findUnique_email_def redis_set_def Let_def
        send_and_catch_def example_registered_eq example_config_def)
  note same = forgotPassword_same_acknowledgement [where s = example_registered
      and cfg = example_config and rnd = example_draws and e = "''a@x.com''"
      and rnd' = example_draws and e' = "''b@x.com''"]
  from same h
  have ab: "fst (forgotPassword example_config example_draws ''a@x.com'' example_registered) =
      fst (forgotPassword example_config example_draws ''b@x.com'' example_registered)"
    by blast
  from same h
  have a: "fst (forgotPassword example_config example_draws ''a@x.com'' example_registered) =
      Inr ''If email exists, OTP sent''"
    by blast
  from ab a
  have b: "fst (forgotPassword example_config example_draws ''b@x.com'' example_registered) =
      Inr ''If email exists, OTP sent''"
    by simp
  from a b h f d show ?thesis by simp
qed

text \<open>
  With the code store down, in the state after \<^verbatim>\<open>a@x.com\<close> has registered: the
  call for the email with an account reaches \<^verbatim>\<open>redis.set\<close> and fails with the
  error of the store, the call for the unknown email has returned the acknowledgement
  before.
\<close>

theorem forgotPassword_outage_reveals_account:
  "redis_down (example_registered\<lparr>redis_down := True\<rparr>) \<and>
   find (\<lambda>u. email u = ''a@x.com'') (users (example_registered\<lparr>redis_down := True\<rparr>)) \<noteq> None \<and>
   find (\<lambda>u. email u = ''b@x.com'') (users (example_registered\<lparr>redis_down := True\<rparr>)) = None \<and>
   fst (forgotPassword example_config example_draws ''a@x.com''
         (example_registered\<lparr>redis_down := True\<rparr>)) = Inl RedisError \<and>
   fst (forgotPassword example_config example_draws ''b@x.com''
         (example_registered\<lparr>redis_down := True\<rparr>)) = Inr ''If email exists, OTP sent''"
  by (simp add: forgotPassword_def findUnique_email_def redis_set_def Let_def
      example_registered_eq)

section \<open>Tokens and login\<close>

lemma example_verified_eq:
  "example_verified =
      \<lparr>users = [\<lparr>uid = 1, email = ''a@x.com'', role = USER, firstName = None, lastName = None,
                 isVerified = True, verifiedAt = Some 1000, password = Bcrypt ''s1'' ''secret1''\<rparr>],
       next_id = 2, redis = Map.empty,
       clock = 1000, db_down = False, redis_down = False, mail_down = False,
       outbox = [(''a@x.com'', ''Verify your email'', ''550000'')], errlog = []\<rparr>"
  by (simp add: example_verified_def verifyEmail_def redis_get_def falsy_def user_update_def
      redis_del_def example_registered_eq)

lemma token_sub_verified: "jwt_verify secret now tok = Some p \<Longrightarrow> token_sub tok = Some (sub p)"
  by (cases "(secret, now, tok)" rule: jwt_verify.cases) (auto split: if_splits)

lemma token_sub_sign [simp]: "token_sub (jwt_sign secret ttl now p) = Some (sub p)"
  by (simp add: jwt_sign_def)

lemma login_unverified:
  "\<not> isVerified u \<Longrightarrow> login cfg u s = Inl (UnauthorizedException ''Email not verified'')"
  by (simp add: login_def)

lemma login_verified:
  "isVerified u \<Longrightarrow> JWT_REFRESH_EXPIRES_IN cfg \<noteq> None \<Longrightarrow> login cfg u s =
     Inr (LoginResult
       (jwt_sign (JWT_SECRET cfg) (JWT_EXPIRES_IN cfg) (clock s)
          (Payload (uid u) (email u) (role u) True))
       (jwt_sign (JWT_SECRET cfg) (JWT_REFRESH_EXPIRES_IN cfg) (clock s)
          (Payload (uid u) (email u) (role u) True))
       (public_user.truncate u))"
  by (auto simp: login_def Let_def jwt_sign_expiresIn_def)

lemma login_unset_refresh_lifetime:
  "isVerified u \<Longrightarrow> JWT_REFRESH_EXPIRES_IN cfg = None \<Longrightarrow> login cfg u s = Inl JwtError"
  by (simp add: login_def Let_def jwt_sign_expiresIn_def)

lemma login_success_subject:
  assumes "login cfg u s = Inr r"
  shows "token_sub (access_token r) = Some (uid u) \<and> token_sub (refresh_token r) = Some (uid u)"
proof -
  from assms have v: "isVerified u"
    by (auto simp: login_def split: if_splits)
  have "JWT_REFRESH_EXPIRES_IN cfg \<noteq> None"
  proof
    assume "JWT_REFRESH_EXPIRES_IN cfg = None"
    from login_unset_refresh_lifetime [OF v this, of s] assms show False
      by simp
  qed
  from login_verified [OF v this, of s] assms show ?thesis
    by auto
qed

lemma account_truncate_fields [simp]:
  "isVerified (account.truncate u) = isVerified u"
  "uid (account.truncate u) = uid u"
  "email (account.truncate u) = email u"
  "role (account.truncate u) = role u"
  "public_user.truncate (account.truncate u) = public_user.truncate u"
  by (simp_all add: account.truncate_def public_user.truncate_def)

text \<open>
  Claim C2, with the refresh lifetime configured. \<^verbatim>\<open>login\<close> fails with
  \<^verbatim>\<open>UnauthorizedException('Email not verified')\<close> for every account whose
  \<open>isVerified\<close> is false; the password is no input of the method, and the login route
  as a whole fails with an \<open>Unauthenticated\<close> error for such an account whatever
  password is supplied. For a verified account, when \<open>JWT_REFRESH_EXPIRES_IN\<close> is set,
  \<^verbatim>\<open>login\<close> returns an access token and a refresh token for the account, and so
  does the route when the password is the one under the stored digest.
\<close>

theorem login_denied_until_verified:
  "(\<not> isVerified u \<longrightarrow> login cfg u s = Inl (UnauthorizedException ''Email not verified'')) \<and>
   (isVerified u \<and> JWT_REFRESH_EXPIRES_IN cfg \<noteq> None \<longrightarrow>
      login cfg u s =
        Inr (LoginResult
          (jwt_sign (JWT_SECRET cfg) (JWT_EXPIRES_IN cfg) (clock s)
             (Payload (uid u) (email u) (role u) True))
          (jwt_sign (JWT_SECRET cfg) (JWT_REFRESH_EXPIRES_IN cfg) (clock s)
             (Payload (uid u) (email u) (role u) True))
          (public_user.truncate u))) \<and>
   (\<not> db_down s \<and> find (\<lambda>r. email r = em) (users s) = Some row \<and> \<not> isVerified row \<longrightarrow>
      (\<exists>e. login_route cfg em pass s = Inl e \<and> Unauthenticated e)) \<and>
   (\<not> db_down s \<and> find (\<lambda>r. email r = em) (users s) = Some row \<and> isVerified row \<and>
    bcrypt_compare pass (password row) \<and> JWT_REFRESH_EXPIRES_IN cfg \<noteq> None \<longrightarrow>
      (\<exists>a r. login_route cfg em pass s = Inr (LoginResult a r (public_user.truncate row)) \<and>
         token_sub a = Some (uid row) \<and> token_sub r = Some (uid row)))"
proof (intro conjI impI)
  show "\<not> isVerified u \<Longrightarrow> login cfg u s = Inl (UnauthorizedException ''Email not verified'')"
    by (rule login_unverified)
  show "isVerified u \<and> JWT_REFRESH_EXPIRES_IN cfg \<noteq> None \<Longrightarrow> login cfg u s =
        Inr (LoginResult
          (jwt_sign (JWT_SECRET cfg) (JWT_EXPIRES_IN cfg) (clock s)
             (Payload (uid u) (email u) (role u) True))
          (jwt_sign (JWT_SECRET cfg) (JWT_REFRESH_EXPIRES_IN cfg) (clock s)
             (Payload (uid u) (email u) (role u) True))
          (public_user.truncate u))"
    by (simp add: login_verified)
next
  assume "\<not> db_down s \<and> find (\<lambda>r. email r = em) (users s) = Some row \<and> \<not> isVerified row"
  then show "\<exists>e. login_route cfg em pass s = Inl e \<and> Unauthenticated e"
    by (simp add: login_route_def validateUser_def findUnique_email_def login_unverified)
next
  assume "\<not> db_down s \<and> find (\<lambda>r. email r = em) (users s) = Some row \<and> isVerified row \<and>
    bcrypt_compare pass (password row) \<and> JWT_REFRESH_EXPIRES_IN cfg \<noteq> None"
  then show "\<exists>a r. login_route cfg em pass s = Inr (LoginResult a r (public_user.truncate row)) \<and>
         token_sub a = Some (uid row) \<and> token_sub r = Some (uid row)"
    by (simp add: login_route_def validateUser_def findUnique_email_def login_verified)
qed

theorem login_denied_until_verified_witness:
  "\<not> db_down example_registered \<and>
   find (\<lambda>r. email r = ''a@x.com'') (users example_registered) =
     Some (hd (users example_registered)) \<and>
   \<not> isVerified (hd (users example_registered)) \<and>
   bcrypt_compare ''secret1'' (password (hd (users example_registered))) \<and>
   login_route example_config ''a@x.com'' ''secret1'' example_registered =
     Inl (UnauthorizedException ''Email not verified'') \<and>
   Unauthenticated (UnauthorizedException ''Email not verified'') \<and>
   \<not> db_down example_verified \<and>
   find (\<lambda>r. email r = ''a@x.com'') (users example_verified) =
     Some (hd (users example_verified)) \<and>
   isVerified (hd (users example_verified)) \<and>
   bcrypt_compare ''secret1'' (password (hd (users example_verified))) \<and>
   JWT_REFRESH_EXPIRES_IN example_config \<noteq> None \<and>
   login example_config (hd (users example_verified)) example_verified =
     Inr (LoginResult
       (Signed (Payload 1 ''a@x.com'' USER True) 1000 (Some 1900) ''secret'')
       example_refresh_token
       \<lparr>uid = 1, email = ''a@x.com'', role = USER, firstName = None, lastName = None\<rparr>) \<and>
   login_route example_config ''a@x.com'' ''secret1'' example_verified =
     login example_config (hd (users example_verified)) example_verified"
proof -
  let ?row = "hd (users example_registered)" and ?row' = "hd (users example_verified)"
  have r: "\<not> db_down example_registered"
    "find (\<lambda>r. email r = ''a@x.com'') (users example_registered) = Some ?row"
    "\<not> isVerified ?row" "bcrypt_compare ''secret1'' (password ?row)"
    by (simp_all add: example_registered_eq bcrypt_compare_def bcrypt_hash_def)
  have v: "\<not> db_down example_verified"
    "find (\<lambda>r. email r = ''a@x.com'') (users example_verified) = Some ?row'"
    "isVerified ?row'" "bcrypt_compare ''secret1'' (password ?row')"
    by (simp_all add: example_verified_eq bcrypt_compare_def bcrypt_hash_def)
  have c: "JWT_REFRESH_EXPIRES_IN example_config \<noteq> None"
    by (simp add: example_config_def)
  have denied: "login_route example_config ''a@x.com'' ''secret1'' example_registered =
     Inl (UnauthorizedException ''Email not verified'')"
    by (simp add: login_route_def validateUser_def findUnique_email_def r login_unverified)
  have route: "login_route example_config ''a@x.com'' ''secret1'' example_verified =
     login example_config ?row' example_verified"
    by (simp add: login_route_def validateUser_def findUnique_email_def v c login_verified)
  from login_denied_until_verified [where u = ?row' and cfg = example_config
      and s = example_verified] v(3) c
  have "login example_config ?row' example_verified =
     Inr (LoginResult
       (jwt_sign (JWT_SECRET example_config) (JWT_EXPIRES_IN example_config)
          (clock example_verified) (Payload (uid ?row') (email ?row') (role ?row') True))
       (jwt_sign (JWT_SECRET example_config) (JWT_REFRESH_EXPIRES_IN example_config)
          (clock example_verified) (Payload (uid ?row') (email ?row') (role ?row') True))
       (public_user.truncate ?row'))"
    by blast
  then have granted: "login example_config ?row' example_verified =
     Inr (LoginResult
       (Signed (Payload 1 ''a@x.com'' USER True) 1000 (Some 1900) ''secret'')
       example_refresh_token
       \<lparr>uid = 1, email = ''a@x.com'', role = USER, firstName = None, lastName = None\<rparr>)"
    by (simp add: example_verified_eq example_config_def example_refresh_token_def jwt_sign_def
        public_user.truncate_def)
  from r v c denied route granted show ?thesis by simp
qed

text \<open>
  With \<^verbatim>\<open>JWT_REFRESH_EXPIRES_IN\<close> unset, the verified account of the run and its
  correct password: \<^verbatim>\<open>validateUser\<close> accepts, the access token is signed, and
  the signing of the refresh token throws, so neither \<^verbatim>\<open>login\<close> nor the route
  returns tokens.
\<close>

theorem login_fails_without_refresh_lifetime:
  "isVerified (hd (users example_verified)) \<and>
   bcrypt_compare ''secret1'' (password (hd (users example_verified))) \<and>
   validateUser ''a@x.com'' ''secret1'' example_verified =
     Inr (Some (account.truncate (hd (users example_verified)))) \<and>
   login (example_config\<lparr>JWT_REFRESH_EXPIRES_IN := None\<rparr>) (hd (users example_verified))
     example_verified = Inl JwtError \<and>
   login_route (example_config\<lparr>JWT_REFRESH_EXPIRES_IN := None\<rparr>) ''a@x.com'' ''secret1''
     example_verified = Inl JwtError"
  by (simp add: login_route_def validateUser_def findUnique_email_def login_def Let_def
      jwt_sign_expiresIn_def bcrypt_compare_def bcrypt_hash_def example_verified_eq
      example_config_def)

section \<open>Refreshing a token\<close>

text \<open>
  Claim C6. \<^verbatim>\<open>refreshToken\<close> fails with
  \<^verbatim>\<open>UnauthorizedException('Invalid refresh token')\<close> when the token does not verify
  (malformed, signed with another key, or expired) and when no account has the
  identifier in its \<open>sub\<close>. When the token verifies and the account is found, the
  result is that of \<^verbatim>\<open>login\<close> on the row just loaded; every successful result
  carries an access token and a refresh token with the subject of the token supplied.
\<close>

theorem refreshToken_unauthenticated_or_same_subject:
  "(jwt_verify (JWT_SECRET cfg) (clock s) tok = None \<longrightarrow>
      refreshToken cfg tok s = Inl (UnauthorizedException ''Invalid refresh token'')) \<and>
   (jwt_verify (JWT_SECRET cfg) (clock s) tok = Some p \<and>
    find (\<lambda>u. uid u = sub p) (users s) = None \<longrightarrow>
      refreshToken cfg tok s = Inl (UnauthorizedException ''Invalid refresh token'')) \<and>
   (jwt_verify (JWT_SECRET cfg) (clock s) tok = Some p \<and> \<not> db_down s \<and>
    find (\<lambda>u. uid u = sub p) (users s) = Some u \<longrightarrow>
      refreshToken cfg tok s = login cfg u s) \<and>
   (refreshToken cfg tok s = Inr r \<longrightarrow>
      token_sub (access_token r) = token_sub tok \<and>
      token_sub (refresh_token r) = token_sub tok)"
proof (intro conjI impI)
  assume "jwt_verify (JWT_SECRET cfg) (clock s) tok = None"
  then show "refreshToken cfg tok s = Inl (UnauthorizedException ''Invalid refresh token'')"
    by (simp add: refreshToken_def)
next
  assume "jwt_verify (JWT_SECRET cfg) (clock s) tok = Some p \<and>
    find (\<lambda>u. uid u = sub p) (users s) = None"
  then show "refreshToken cfg tok s = Inl (UnauthorizedException ''Invalid refresh token'')"
    by (simp add: refreshToken_def findUnique_id_def)
next
  assume "jwt_verify (JWT_SECRET cfg) (clock s) tok = Some p \<and> \<not> db_down s \<and>
    find (\<lambda>u. uid u = sub p) (users s) = Some u"
  then show "refreshToken cfg tok s = login cfg u s"
    by (simp add: refreshToken_def findUnique_id_def)
next
  assume ok: "refreshToken cfg tok s = Inr r"
  then obtain p where p: "jwt_verify (JWT_SECRET cfg) (clock s) tok = Some p"
    by (cases "jwt_verify (JWT_SECRET cfg) (clock s) tok") (simp_all add: refreshToken_def)
  with ok obtain u where u: "find (\<lambda>u. uid u = sub p) (users s) = Some u"
    and l: "login cfg u s = Inr r"
    by (auto simp: refreshToken_def findUnique_id_def split: if_splits option.splits)
  from u have "uid u = sub p"
    by (auto simp: find_Some_iff)
  with login_success_subject [OF l]
  have "token_sub (access_token r) = Some (sub p)"
    "token_sub (refresh_token r) = Some (sub p)"
    by simp_all
  with token_sub_verified [OF p]
  show "token_sub (access_token r) = token_sub tok" "token_sub (refresh_token r) = token_sub tok"
    by simp_all
qed


theorem refreshToken_unauthenticated_or_same_subject_witness:
  "jwt_verify (JWT_SECRET example_config) (clock example_verified) example_refresh_token =
     Some (Payload 1 ''a@x.com'' USER True) \<and>
   \<not> db_down example_verified \<and>
   find (\<lambda>u. uid u = 1) (users example_verified) = Some (hd (users example_verified)) \<and>
   refreshToken example_config example_refresh_token example_verified =
     Inr (LoginResult
       (Signed (Payload 1 ''a@x.com'' USER True) 1000 (Some 1900) ''secret'')
       (Signed (Payload 1 ''a@x.com'' USER True) 1000 (Some 605800) ''secret'')
       \<lparr>uid = 1, email = ''a@x.com'', role = USER, firstName = None, lastName = None\<rparr>) \<and>
   token_sub example_refresh_token = Some 1 \<and>
   jwt_verify (JWT_SECRET example_config) (clock example_verified) (Malformed ''junk'') = None \<and>
   refreshToken example_config (Malformed ''junk'') example_verified =
     Inl (UnauthorizedException ''Invalid refresh token'') \<and>
   jwt_verify (JWT_SECRET example_config) (clock (advance 604800 example_verified))
     example_refresh_token = None \<and>
   refreshToken example_config example_refresh_token (advance 604800 example_verified) =
     Inl (UnauthorizedException ''Invalid refresh token'') \<and>
   find (\<lambda>u. uid u = 1) (users (example_verified\<lparr>users := []\<rparr>)) = None \<and>
   refreshToken example_config example_refresh_token (example_verified\<lparr>users := []\<rparr>) =
     Inl (UnauthorizedException ''Invalid refresh token'')"
proof -
  let ?p = "Payload 1 ''a@x.com'' USER True"
  have ok: "jwt_verify (JWT_SECRET example_config) (clock example_verified)
      example_refresh_token = Some ?p"
    "\<not> db_down example_verified"
    "find (\<lambda>u. uid u = 1) (users example_verified) = Some (hd (users example_verified))"
    by (simp_all add: example_config_def example_verified_eq example_refresh_token_def)
  have l: "login example_config (hd (users example_verified)) example_verified =
     Inr (LoginResult
       (Signed ?p 1000 (Some 1900) ''secret'') (Signed ?p 1000 (Some 605800) ''secret'')
       \<lparr>uid = 1, email = ''a@x.com'', role = USER, firstName = None, lastName = None\<rparr>)"
    by (simp add: login_def Let_def jwt_sign_def jwt_sign_expiresIn_def example_config_def
        example_verified_eq public_user.truncate_def)
  have bad: "jwt_verify (JWT_SECRET example_config) (clock example_verified)
      (Malformed ''junk'') = None"
    by simp
  have late: "jwt_verify (JWT_SECRET example_config) (clock (advance 604800 example_verified))
     example_refresh_token = None"
    by (simp add: example_config_def example_verified_eq example_refresh_token_def advance_def)
  have gone: "jwt_verify (JWT_SECRET example_config) (clock (example_verified\<lparr>users := []\<rparr>))
      example_refresh_token = Some ?p"
    "find (\<lambda>u. uid u = sub ?p) (users (example_verified\<lparr>users := []\<rparr>)) = None"
    by (simp_all add: example_config_def example_verified_eq example_refresh_token_def)
  have sub: "token_sub example_refresh_token = Some 1"
    by (simp add: example_refresh_token_def)
  from refreshToken_unauthenticated_or_same_subject [where cfg = example_config
      and s = example_verified and tok = example_refresh_token and p = ?p
      and u = "hd (users example_verified)"] ok l
  have A: "refreshToken example_config example_refresh_token example_verified =
     Inr (LoginResult
       (Signed ?p 1000 (Some 1900) ''secret'') (Signed ?p 1000 (Some 605800) ''secret'')
       \<lparr>uid = 1, email = ''a@x.com'', role = USER, firstName = None, lastName = None\<rparr>)"
    by simp
  from refreshToken_unauthenticated_or_same_subject [where cfg = example_config
      and s = example_verified and tok = "Malformed ''junk''"] bad
  have B: "refreshToken example_config (Malformed ''junk'') example_verified =
     Inl (UnauthorizedException ''Invalid refresh token'')"
    by blast
  from refreshToken_unauthenticated_or_same_subject [where cfg = example_config
      and s = "advance 604800 example_verified" and tok = example_refresh_token] late
  have C: "refreshToken example_config example_refresh_token (advance 604800 example_verified) =
     Inl (UnauthorizedException ''Invalid refresh token'')"
    by blast
  from refreshToken_unauthenticated_or_same_subject [where cfg = example_config
      and s = "example_verified\<lparr>users := []\<rparr>" and tok = example_refresh_token and p = ?p] gone
  have D: "refreshToken example_config example_refresh_token (example_verified\<lparr>users := []\<rparr>) =
     Inl (UnauthorizedException ''Invalid refresh token'')"
    by blast
  from ok bad late gone(2) sub A B C D show ?thesis by simp
qed

section \<open>Registration\<close>

lemma send_and_catch_fields [simp]:
  "users (send_and_catch rcpt subject otp line s) = users s"
  "redis (send_and_catch rcpt subject otp line s) = redis s"
  "clock (send_and_catch rcpt subject otp line s) = clock s"
  "db_down (send_and_catch rcpt subject otp line s) = db_down s"
  "redis_down (send_and_catch rcpt subject otp line s) = redis_down s"
  "next_id (send_and_catch rcpt subject otp line s) = next_id s"
  by (simp_all add: send_and_catch_def)

lemma redis_get_after_set:
  "\<not> redis_down s \<Longrightarrow> redis_get k (snd (redis_set k v ttl s)) = Inr (Some v)"
  by (simp add: redis_get_def redis_set_def split: option.splits)

lemma redis_get_cong:
  "redis s' = redis s \<Longrightarrow> clock s' = clock s \<Longrightarrow> redis_down s' = redis_down s \<Longrightarrow>
   redis_get k s' = redis_get k s"
  by (simp add: redis_get_def split: option.splits prod.splits)

text \<open>
  Claim C4. While both stores answer, \<^verbatim>\<open>register\<close> fails with
  \<^verbatim>\<open>BadRequestException('User already exists')\<close> exactly when a row with the email
  exists, and then changes nothing. Otherwise it returns its acknowledgement (the same
  whether or not the mail could be sent), has appended a row with
  \<open>isVerified = False\<close>, \<open>role = USER\<close> and the digest of the password under the
  drawn salt, and has stored the generated code under the verification key of the
  email, where \<^verbatim>\<open>get\<close> finds it.
\<close>

theorem register_conflict_or_created:
  assumes "\<not> db_down s" and "\<not> redis_down s"
  shows "(fst (register cfg rnd em pw fname lname s) = Inl Conflict \<longleftrightarrow>
        find (\<lambda>u. email u = em) (users s) \<noteq> None) \<and>
     (find (\<lambda>u. email u = em) (users s) \<noteq> None \<longrightarrow>
        snd (register cfg rnd em pw fname lname s) = s) \<and>
     (find (\<lambda>u. email u = em) (users s) = None \<longrightarrow>
        fst (register cfg rnd em pw fname lname s) =
          Inr ''User registered. Please check email for OTP.'' \<and>
        users (snd (register cfg rnd em pw fname lname s)) =
          users s @ [\<lparr>uid = next_id s, email = em, role = USER, firstName = fname,
                      lastName = lname, isVerified = False, verifiedAt = None,
                      password = bcrypt_hash pw (salt rnd)\<rparr>] \<and>
        redis_get (verify_key em) (snd (register cfg rnd em pw fname lname s)) =
          Inr (Some (generateOtp (random rnd))))"
proof (cases "find (\<lambda>u. email u = em) (users s)")
  case (Some u)
  with assms have "register cfg rnd em pw fname lname s = (Inl Conflict, s)"
    by (simp add: register_def register_lookup_def findUnique_email_def)
  with Some show ?thesis by simp
next
  case None
  let ?row = "\<lparr>uid = next_id s, email = em, role = USER, firstName = fname,
     lastName = lname, isVerified = False, verifiedAt = None,
     password = bcrypt_hash pw (salt rnd)\<rparr>"
  let ?s1 = "s\<lparr>users := users s @ [?row], next_id := Suc (next_id s)\<rparr>"
  from None assms have c: "register_create rnd em pw fname lname s = (Inr ?row, ?s1)"
    by (simp add: register_create_def user_create_def Let_def)
  from None assms have l: "register_lookup em s = Inr ()"
    by (simp add: register_lookup_def findUnique_email_def)
  from assms have up: "\<not> redis_down ?s1" by simp
  have o: "register_otp cfg rnd ?row ?s1 =
      (Inr ''User registered. Please check email for OTP.'',
       send_and_catch em ''Verify your email'' (generateOtp (random rnd))
         (''Failed to send verification email to '' @ em)
         (snd (redis_set (verify_key em) (generateOtp (random rnd)) (OTP_EXPIRY_SECONDS cfg) ?s1)))"
    using up by (simp add: register_otp_def Let_def redis_set_def split: option.splits)
  have r: "register cfg rnd em pw fname lname s = register_otp cfg rnd ?row ?s1"
    by (simp add: register_def l c)
  have u: "users (snd (redis_set k v ttl ?s1)) = users s @ [?row]" for k v ttl
    using up by (simp add: redis_set_def split: option.splits)
  have g: "redis_get (verify_key em) (snd (register cfg rnd em pw fname lname s)) =
      redis_get (verify_key em)
        (snd (redis_set (verify_key em) (generateOtp (random rnd)) (OTP_EXPIRY_SECONDS cfg) ?s1))"
    unfolding r o by (rule redis_get_cong) simp_all
  from None show ?thesis
    by (simp add: g redis_get_after_set [OF up]) (simp add: r o u)
qed


theorem register_conflict_or_created_witness:
  "\<not> db_down example_state \<and> \<not> redis_down example_state \<and>
   find (\<lambda>u. email u = ''a@x.com'') (users example_state) = None \<and>
   fst (register example_config example_draws ''a@x.com'' ''secret1'' None None example_state) =
     Inr ''User registered. Please check email for OTP.'' \<and>
   users example_registered =
     [\<lparr>uid = 1, email = ''a@x.com'', role = USER, firstName = None, lastName = None,
       isVerified = False, verifiedAt = None, password = Bcrypt ''s1'' ''secret1''\<rparr>] \<and>
   redis_get (verify_key ''a@x.com'') example_registered = Inr (Some ''550000'') \<and>
   \<not> db_down example_registered \<and> \<not> redis_down example_registered \<and>
   find (\<lambda>u. email u = ''a@x.com'') (users example_registered) \<noteq> None \<and>
   fst (register example_config example_draws ''a@x.com'' ''other'' None None example_registered)
     = Inl Conflict \<and>
   snd (register example_config example_draws ''a@x.com'' ''other'' None None example_registered)
     = example_registered"
proof -
  have h0: "\<not> db_down example_state" "\<not> redis_down example_state"
    "find (\<lambda>u. email u = ''a@x.com'') (users example_state) = None"
    by (simp_all add: example_state_def)
  have h1: "\<not> db_down example_registered" "\<not> redis_down example_registered"
    "find (\<lambda>u. email u = ''a@x.com'') (users example_registered) \<noteq> None"
    by (simp_all add: example_registered_eq)
  have e: "next_id example_state = 1" "salt example_draws = ''s1''"
    "generateOtp (random example_draws) = ''550000''" "users example_state = []"
    by (simp_all add: example_state_def example_draws_def generateOtp_half)
  from register_conflict_or_created [OF h0(1,2), of example_config example_draws "''a@x.com''"
      "''secret1''" None None] h0(3)
  have A: "fst (register example_config example_draws ''a@x.com'' ''secret1'' None None
        example_state) = Inr ''User registered. Please check email for OTP.''"
    "users example_registered =
      [\<lparr>uid = 1, email = ''a@x.com'', role = USER, firstName = None, lastName = None,
        isVerified = False, verifiedAt = None, password = Bcrypt ''s1'' ''secret1''\<rparr>]"
    "redis_get (verify_key ''a@x.com'') example_registered = Inr (Some ''550000'')"
    by (simp_all add: example_registered_def e bcrypt_hash_def)
  from register_conflict_or_created [OF h1(1,2), of example_config example_draws "''a@x.com''"
      "''other''" None None] h1(3)
  have B: "fst (register example_config example_draws ''a@x.com'' ''other'' None None
        example_registered) = Inl Conflict"
    "snd (register example_config example_draws ''a@x.com'' ''other'' None None
        example_registered) = example_registered"
    by blast+
  from h0 h1 A B show ?thesis by simp
qed

section \<open>The service keeps the code store well formed\<close>

lemma codes_wf_send_and_catch [simp]:
  "codes_wf (send_and_catch rcpt subject otp line s) = codes_wf s"
  by (simp add: codes_wf_def)

lemma codes_wf_advance [simp]: "codes_wf (advance d s) = codes_wf s"
  by (simp add: codes_wf_def advance_def)

lemma codes_wf_redis_del: "codes_wf s \<Longrightarrow> codes_wf (snd (redis_del k s))"
  by (simp add: codes_wf_def redis_del_def)

lemma redis_set_shape:
  "\<not> redis_down s \<Longrightarrow>
   snd (redis_set k v ttl s) =
     s\<lparr>redis := (redis s)(k \<mapsto>
        (v, case ttl of None \<Rightarrow> None | Some t \<Rightarrow> if t \<noteq> 0 then Some (clock s + t) else None))\<rparr>"
  by (cases ttl) (simp_all add: redis_set_def)

lemma codes_wf_redis_set:
  assumes "codes_wf s" and "v \<noteq> []" and "k = verify_key e \<or> k = reset_key e"
    and "find (\<lambda>u. email u = e) (users s) \<noteq> None"
  shows "codes_wf (snd (redis_set k v ttl s))"
proof (cases "redis_down s")
  case True
  with assms(1) show ?thesis by (simp add: redis_set_def)
next
  case False
  from assms show ?thesis
    unfolding redis_set_shape [OF False] codes_wf_def by auto
qed

lemma find_email_append_found:
  "find (\<lambda>u. email u = e) xs \<noteq> None \<Longrightarrow> find (\<lambda>u. email u = e) (xs @ [x]) \<noteq> None"
  by (auto simp: find_email_append split: option.splits)

lemma codes_wf_users_append:
  assumes "codes_wf s"
  shows "codes_wf (s\<lparr>users := users s @ [row], next_id := n\<rparr>)"
  using assms unfolding codes_wf_def
  by (simp add: find_email_append_found)

lemma codes_wf_user_create:
  assumes "codes_wf s"
  shows "codes_wf (snd (user_create e h fname lname r s))"
  using assms codes_wf_users_append [OF assms]
  by (simp add: user_create_def Let_def)

lemma codes_wf_user_update:
  assumes "codes_wf s" and "\<And>u. email (f u) = email u"
  shows "codes_wf (snd (user_update e f s))"
proof -
  have "find (\<lambda>u. email u = e') (map (\<lambda>u. if email u = e then f u else u) (users s)) \<noteq> None"
    if "find (\<lambda>u. email u = e') (users s) \<noteq> None" for e'
    using that by (simp add: find_email_update [OF assms(2)])
  with assms(1) show ?thesis
    by (auto simp: codes_wf_def user_update_def split: option.splits)
qed

lemma codes_wf_register:
  assumes "codes_wf s"
  shows "codes_wf (snd (register cfg rnd em pw fname lname s))"
proof (cases "register_lookup em s")
  case (Inl e)
  with assms show ?thesis by (simp add: register_def)
next
  case (Inr x)
  show ?thesis
  proof (cases "register_create rnd em pw fname lname s")
    case (Pair r s1)
    have wf1: "codes_wf s1"
      using codes_wf_user_create [OF assms, of em "bcrypt_hash pw (salt rnd)" fname lname USER]
        Pair by (simp add: register_create_def)
    show ?thesis
    proof (cases r)
      case (Inl e)
      with Inr Pair wf1 show ?thesis by (simp add: register_def)
    next
      case (Inr u)
      with Pair have u: "email u = em" "find (\<lambda>u. email u = em) (users s1) \<noteq> None"
        by (auto simp: register_create_def user_create_def Let_def find_email_append
            split: if_splits option.splits)
      have "codes_wf (snd (register_otp cfg rnd u s1))"
        using codes_wf_redis_set [OF wf1 generateOtp_nonempty, of "verify_key em" em
            "random rnd" "OTP_EXPIRY_SECONDS cfg"] u
        by (auto simp: register_otp_def Let_def redis_set_def split: prod.splits sum.splits)
      with \<open>register_lookup em s = Inr x\<close> Pair Inr show ?thesis
        by (simp add: register_def)
    qed
  qed
qed

lemma codes_wf_forgotPassword:
  assumes "codes_wf s"
  shows "codes_wf (snd (forgotPassword cfg rnd em s))"
proof (cases "findUnique_email em s")
  case (Inl e)
  with assms show ?thesis by (simp add: forgotPassword_def)
next
  case (Inr found)
  show ?thesis
  proof (cases found)
    case None
    with Inr assms show ?thesis by (simp add: forgotPassword_def)
  next
    case (Some u)
    with Inr have "find (\<lambda>u. email u = em) (users s) \<noteq> None"
      by (auto simp: findUnique_email_def split: if_splits)
    from codes_wf_redis_set [OF assms generateOtp_nonempty _ this, of "reset_key em"
        "random rnd" "OTP_EXPIRY_SECONDS cfg"]
    have "codes_wf (snd (redis_set (reset_key em) (generateOtp (random rnd))
        (OTP_EXPIRY_SECONDS cfg) s))"
      by simp
    with Inr Some show ?thesis
      by (auto simp: forgotPassword_def Let_def split: prod.splits sum.splits)
  qed
qed

lemma codes_wf_verifyEmail:
  assumes "codes_wf s"
  shows "codes_wf (snd (verifyEmail em otp s))"
proof -
  let ?f = "\<lambda>u. u\<lparr>isVerified := True, verifiedAt := Some (clock s)\<rparr>"
  have "codes_wf (snd (user_update em ?f s))"
    by (rule codes_wf_user_update [OF assms]) simp
  then have "codes_wf (snd (redis_del (verify_key em) (snd (user_update em ?f s))))"
    by (rule codes_wf_redis_del)
  with assms \<open>codes_wf (snd (user_update em ?f s))\<close> show ?thesis
    by (auto simp: verifyEmail_def split: sum.splits prod.splits)
qed

lemma codes_wf_resetPassword:
  assumes "codes_wf s"
  shows "codes_wf (snd (resetPassword rnd em otp newPassword s))"
proof -
  let ?f = "\<lambda>u. u\<lparr>password := bcrypt_hash newPassword (salt rnd)\<rparr>"
  have "codes_wf (snd (user_update em ?f s))"
    by (rule codes_wf_user_update [OF assms]) simp
  then have "codes_wf (snd (redis_del (reset_key em) (snd (user_update em ?f s))))"
    by (rule codes_wf_redis_del)
  with assms \<open>codes_wf (snd (user_update em ?f s))\<close> show ?thesis
    by (auto simp: resetPassword_def split: sum.splits prod.splits)
qed

lemma codes_wf_example_state: "codes_wf example_state"
  by (simp add: codes_wf_def example_state_def)

lemma codes_wf_example_registered: "codes_wf example_registered"
  unfolding example_registered_def by (rule codes_wf_register [OF codes_wf_example_state])

text \<open>Every reachable state is well formed.\<close>

lemma reachable_codes_wf: "reachable cfg s \<Longrightarrow> codes_wf s"
proof (induction rule: reachable.induct)
  case (start s)
  then show ?case by (simp add: codes_wf_def)
next
  case (after_register s rnd em pw fname lname)
  then show ?case by (simp add: codes_wf_register)
next
  case (after_verifyEmail s em otp)
  then show ?case by (simp add: codes_wf_verifyEmail)
next
  case (after_forgotPassword s rnd em)
  then show ?case by (simp add: codes_wf_forgotPassword)
next
  case (after_resetPassword s rnd em otp newPassword)
  then show ?case by (simp add: codes_wf_resetPassword)
next
  case (after_time s d)
  then show ?case by simp
next
  case (after_outage s a b c)
  then show ?case by (simp add: codes_wf_def)
qed

section \<open>Verifying an email\<close>

lemma redis_get_up:
  "\<not> redis_down s \<Longrightarrow>
   redis_get k s =
     Inr (case redis s k of None \<Rightarrow> None | Some (v, None) \<Rightarrow> Some v
          | Some (v, Some t) \<Rightarrow> if clock s < t then Some v else None)"
  by (simp add: redis_get_def split: option.splits prod.splits)

lemma verifyEmail_rejects:
  assumes "\<not> redis_down s" and "redis_get (verify_key em) s \<noteq> Inr (Some otp)"
  shows "verifyEmail em otp s = (Inl InvalidOrExpiredCode, s)"
proof -
  from redis_get_up [OF assms(1)] obtain stored
    where g: "redis_get (verify_key em) s = Inr stored"
    by blast
  with assms(2) have "stored \<noteq> Some otp" by simp
  with g show ?thesis by (simp add: verifyEmail_def)
qed

lemma stored_code_nonempty:
  assumes "codes_wf s" and "redis_get k s = Inr (Some v)"
  shows "v \<noteq> []"
proof -
  from assms(2) obtain x where "redis s k = Some (v, x)"
    by (auto simp: redis_get_def split: if_splits option.splits)
  with assms(1) show ?thesis by (auto simp: codes_wf_def)
qed

lemma stored_verify_code_has_account:
  assumes "codes_wf s" and "redis_get (verify_key em) s = Inr (Some v)"
  shows "find (\<lambda>u. email u = em) (users s) \<noteq> None"
proof -
  from assms(2) obtain x where "redis s (verify_key em) = Some (v, x)"
    by (auto simp: redis_get_def split: if_splits option.splits)
  with assms(1) show ?thesis unfolding codes_wf_def by blast
qed

lemma verifyEmail_accepts:
  assumes "\<not> db_down s" and "\<not> redis_down s" and "otp \<noteq> []"
    and "redis_get (verify_key em) s = Inr (Some otp)"
    and "find (\<lambda>u. email u = em) (users s) \<noteq> None"
  shows "verifyEmail em otp s =
     (Inr ''Email verified successfully'',
      s\<lparr>users := map (\<lambda>u. if email u = em
                then u\<lparr>isVerified := True, verifiedAt := Some (clock s)\<rparr> else u) (users s),
        redis := (redis s)(verify_key em := None)\<rparr>)"
  using assms
  by (auto simp: verifyEmail_def falsy_def user_update_def redis_del_def)

text \<open>
  Claim C1. In a well-formed state (every reachable state is one) with both stores
  answering, \<^verbatim>\<open>verifyEmail\<close> succeeds exactly when \<^verbatim>\<open>get\<close> on the verification key of the email returns
  the supplied code, that is when a code is stored there, has not expired, has not been
  deleted and equals the supplied one. In every other case it fails with
  \<^verbatim>\<open>BadRequestException('Invalid or expired OTP')\<close>. After a success the same
  call, at any later time, fails with that error. The key holds the code written last:
  a \<^verbatim>\<open>set\<close> replaces what was stored.
\<close>

theorem verifyEmail_succeeds_iff_code_matches:
  assumes "codes_wf s" and "\<not> db_down s" and "\<not> redis_down s"
  shows "(fst (verifyEmail em otp s) = Inr ''Email verified successfully'' \<longleftrightarrow>
        redis_get (verify_key em) s = Inr (Some otp)) \<and>
     (redis_get (verify_key em) s \<noteq> Inr (Some otp) \<longrightarrow>
        verifyEmail em otp s = (Inl InvalidOrExpiredCode, s)) \<and>
     (redis_get (verify_key em) s = Inr (Some otp) \<longrightarrow>
        (\<forall>d. fst (verifyEmail em otp (advance d (snd (verifyEmail em otp s)))) =
           Inl InvalidOrExpiredCode)) \<and>
     (\<forall>new ttl. redis_get (verify_key em) (snd (redis_set (verify_key em) new ttl s)) =
        Inr (Some new))"
proof (intro conjI impI allI)
  show "fst (verifyEmail em otp s) = Inr ''Email verified successfully'' \<longleftrightarrow>
        redis_get (verify_key em) s = Inr (Some otp)"
  proof
    assume ok: "fst (verifyEmail em otp s) = Inr ''Email verified successfully''"
    show "redis_get (verify_key em) s = Inr (Some otp)"
    proof (rule ccontr)
      assume "redis_get (verify_key em) s \<noteq> Inr (Some otp)"
      then have "verifyEmail em otp s = (Inl InvalidOrExpiredCode, s)"
        by (rule verifyEmail_rejects [OF assms(3)])
      with ok show False by simp
    qed
  next
    assume g: "redis_get (verify_key em) s = Inr (Some otp)"
    from verifyEmail_accepts [OF assms(2,3) stored_code_nonempty [OF assms(1) g] g
        stored_verify_code_has_account [OF assms(1) g]]
    show "fst (verifyEmail em otp s) = Inr ''Email verified successfully''"
      by simp
  qed
next
  assume "redis_get (verify_key em) s \<noteq> Inr (Some otp)"
  then show "verifyEmail em otp s = (Inl InvalidOrExpiredCode, s)"
    by (rule verifyEmail_rejects [OF assms(3)])
next
  fix d
  assume g: "redis_get (verify_key em) s = Inr (Some otp)"
  let ?s' = "snd (verifyEmail em otp s)"
  from verifyEmail_accepts [OF assms(2,3) stored_code_nonempty [OF assms(1) g] g
      stored_verify_code_has_account [OF assms(1) g]]
  have "redis ?s' (verify_key em) = None" and "\<not> redis_down ?s'"
    using assms(3) by simp_all
  then have "\<not> redis_down (advance d ?s')"
    and "redis_get (verify_key em) (advance d ?s') \<noteq> Inr (Some otp)"
    by (simp_all add: redis_get_def advance_def)
  then show "fst (verifyEmail em otp (advance d ?s')) = Inl InvalidOrExpiredCode"
    by (simp add: verifyEmail_rejects)
next
  fix new ttl
  show "redis_get (verify_key em) (snd (redis_set (verify_key em) new ttl s)) = Inr (Some new)"
    by (rule redis_get_after_set [OF assms(3)])
qed

theorem verifyEmail_succeeds_iff_code_matches_witness:
  "codes_wf example_registered \<and> \<not> db_down example_registered \<and>
   \<not> redis_down example_registered \<and>
   redis_get (verify_key ''a@x.com'') example_registered = Inr (Some ''550000'') \<and>
   fst (verifyEmail ''a@x.com'' ''550000'' example_registered) =
     Inr ''Email verified successfully'' \<and>
   fst (verifyEmail ''a@x.com'' ''550000'' (advance 60 example_verified)) =
     Inl InvalidOrExpiredCode \<and>
   verifyEmail ''a@x.com'' ''550001'' example_registered =
     (Inl InvalidOrExpiredCode, example_registered) \<and>
   codes_wf (advance 300 example_registered) \<and>
   verifyEmail ''a@x.com'' ''550000'' (advance 300 example_registered) =
     (Inl InvalidOrExpiredCode, advance 300 example_registered)"
proof -
  have h: "\<not> db_down example_registered" "\<not> redis_down example_registered"
    "\<not> db_down (advance 300 example_registered)"
    "\<not> redis_down (advance 300 example_registered)"
    by (simp_all add: example_registered_eq advance_def)
  have g: "redis_get (verify_key ''a@x.com'') example_registered = Inr (Some ''550000'')"
    "redis_get (verify_key ''a@x.com'') example_registered \<noteq> Inr (Some ''550001'')"
    "redis_get (verify_key ''a@x.com'') (advance 300 example_registered) \<noteq>
       Inr (Some ''550000'')"
    by (simp_all add: redis_get_def advance_def example_registered_eq)
  note wf = codes_wf_example_registered
  have wf': "codes_wf (advance 300 example_registered)"
    by (simp add: wf)
  note now = verifyEmail_succeeds_iff_code_matches [OF wf h(1,2)]
  note later = verifyEmail_succeeds_iff_code_matches [OF wf' h(3,4)]
  from now [of "''a@x.com''" "''550000''"] g(1)
  have A: "fst (verifyEmail ''a@x.com'' ''550000'' example_registered) =
      Inr ''Email verified successfully''"
    "fst (verifyEmail ''a@x.com'' ''550000'' (advance 60 example_verified)) =
      Inl InvalidOrExpiredCode"
    unfolding example_verified_def by blast+
  from now [of "''a@x.com''" "''550001''"] g(2)
  have B: "verifyEmail ''a@x.com'' ''550001'' example_registered =
      (Inl InvalidOrExpiredCode, example_registered)"
    by blast
  from later [of "''a@x.com''" "''550000''"] g(3)
  have C: "verifyEmail ''a@x.com'' ''550000'' (advance 300 example_registered) =
     (Inl InvalidOrExpiredCode, advance 300 example_registered)"
    by blast
  from wf wf' h g(1) A B C show ?thesis by simp
qed

section \<open>Resetting a password\<close>

lemma bcrypt_compare_hash [simp]: "bcrypt_compare p (bcrypt_hash q sl) \<longleftrightarrow> p = q"
  by (auto simp: bcrypt_compare_def bcrypt_hash_def)

lemma resetPassword_rejects:
  assumes "\<not> redis_down s" and "redis_get (reset_key em) s \<noteq> Inr (Some otp)"
  shows "resetPassword rnd em otp newPassword s = (Inl InvalidOrExpiredCode, s)"
proof -
  from redis_get_up [OF assms(1)] obtain stored
    where g: "redis_get (reset_key em) s = Inr stored"
    by blast
  with assms(2) have "stored \<noteq> Some otp" by simp
  with g show ?thesis by (simp add: resetPassword_def)
qed

lemma resetPassword_accepts:
  assumes "\<not> db_down s" and "\<not> redis_down s" and "otp \<noteq> []"
    and "redis_get (reset_key em) s = Inr (Some otp)"
    and "find (\<lambda>u. email u = em) (users s) \<noteq> None"
  shows "resetPassword rnd em otp newPassword s =
     (Inr ''Password reset successfully'',
      s\<lparr>users := map (\<lambda>u. if email u = em
                then u\<lparr>password := bcrypt_hash newPassword (salt rnd)\<rparr> else u) (users s),
        redis := (redis s)(reset_key em := None)\<rparr>)"
  using assms
  by (auto simp: resetPassword_def falsy_def user_update_def redis_del_def)

lemma resetPassword_success:
  assumes "fst (resetPassword rnd em otp newPassword s) = Inr m"
  shows "\<not> db_down s \<and> \<not> redis_down s \<and> otp \<noteq> [] \<and>
     redis_get (reset_key em) s = Inr (Some otp) \<and>
     find (\<lambda>u. email u = em) (users s) \<noteq> None"
proof -
  have up: "\<not> redis_down s"
    using assms by (auto simp: resetPassword_def redis_get_def)
  have g: "redis_get (reset_key em) s = Inr (Some otp)"
  proof (rule ccontr)
    assume "redis_get (reset_key em) s \<noteq> Inr (Some otp)"
    from resetPassword_rejects [OF up this] assms show False by simp
  qed
  have ne: "otp \<noteq> []"
    using assms g by (auto simp: resetPassword_def falsy_def)
  have "\<not> db_down s \<and> find (\<lambda>u. email u = em) (users s) \<noteq> None"
    using assms g ne
    by (auto simp: resetPassword_def falsy_def user_update_def split: if_splits option.splits)
  with up g ne show ?thesis by simp
qed

lemma truncate_password_update [simp]:
  "account.truncate (u\<lparr>password := h\<rparr>) = account.truncate u"
  by (simp add: account.truncate_def)

text \<open>
  Claim C8. When \<^verbatim>\<open>resetPassword\<close> succeeds, the state it leaves differs from
  the one it started from in two places only: the row of the email carries the digest
  of the new password under the drawn salt, and the reset key of the email is deleted.
  Every row is unchanged but for its password, so \<open>isVerified\<close> is untouched, and
  \<^verbatim>\<open>validateUser\<close> accepts the new password. The call does succeed when both
  stores answer, the stored code is the supplied one and the account exists.
\<close>

theorem resetPassword_overwrites_hash_only:
  "(fst (resetPassword rnd em otp newPassword s) = Inr m \<longrightarrow>
      snd (resetPassword rnd em otp newPassword s) =
        s\<lparr>users := map (\<lambda>u. if email u = em
                  then u\<lparr>password := bcrypt_hash newPassword (salt rnd)\<rparr> else u) (users s),
          redis := (redis s)(reset_key em := None)\<rparr> \<and>
      map account.truncate (users (snd (resetPassword rnd em otp newPassword s))) =
        map account.truncate (users s) \<and>
      map isVerified (users (snd (resetPassword rnd em otp newPassword s))) =
        map isVerified (users s) \<and>
      redis_get (reset_key em) (snd (resetPassword rnd em otp newPassword s)) = Inr None \<and>
      (\<exists>u. find (\<lambda>u. email u = em) (users s) = Some u \<and>
         validateUser em newPassword (snd (resetPassword rnd em otp newPassword s)) =
           Inr (Some (account.truncate u)))) \<and>
   (\<not> db_down s \<and> \<not> redis_down s \<and> otp \<noteq> [] \<and>
    redis_get (reset_key em) s = Inr (Some otp) \<and>
    find (\<lambda>u. email u = em) (users s) \<noteq> None \<longrightarrow>
      fst (resetPassword rnd em otp newPassword s) = Inr ''Password reset successfully'')"
proof (intro conjI impI)
  assume "\<not> db_down s \<and> \<not> redis_down s \<and> otp \<noteq> [] \<and>
    redis_get (reset_key em) s = Inr (Some otp) \<and>
    find (\<lambda>u. email u = em) (users s) \<noteq> None"
  then show "fst (resetPassword rnd em otp newPassword s) = Inr ''Password reset successfully''"
    by (simp add: resetPassword_accepts)
next
  let ?f = "\<lambda>u. u\<lparr>password := bcrypt_hash newPassword (salt rnd)\<rparr>"
  let ?g = "\<lambda>u. if email u = em then ?f u else u"
  let ?s' = "snd (resetPassword rnd em otp newPassword s)"
  assume "fst (resetPassword rnd em otp newPassword s) = Inr m"
  note ok = resetPassword_success [OF this]
  from ok have acc: "resetPassword rnd em otp newPassword s =
      (Inr ''Password reset successfully'',
       s\<lparr>users := map ?g (users s), redis := (redis s)(reset_key em := None)\<rparr>)"
    by (simp add: resetPassword_accepts)
  then show s': "?s' = s\<lparr>users := map ?g (users s), redis := (redis s)(reset_key em := None)\<rparr>"
    by simp
  show "map account.truncate (users ?s') = map account.truncate (users s)"
    unfolding s' by simp
  show "map isVerified (users ?s') = map isVerified (users s)"
    unfolding s' by simp
  show "redis_get (reset_key em) ?s' = Inr None"
    unfolding s' using ok by (simp add: redis_get_def)
  from ok obtain u where u: "find (\<lambda>u. email u = em) (users s) = Some u"
    by blast
  then have "email u = em"
    by (auto simp: find_Some_iff)
  with u have "find (\<lambda>u. email u = em) (map ?g (users s)) = Some (?f u)"
    by (simp add: find_email_update)
  with ok have "validateUser em newPassword ?s' = Inr (Some (account.truncate u))"
    unfolding s' by (simp add: validateUser_def findUnique_email_def)
  with u show "\<exists>u. find (\<lambda>u. email u = em) (users s) = Some u \<and>
      validateUser em newPassword ?s' = Inr (Some (account.truncate u))"
    by blast
qed

lemma generateOtp_quarter: "generateOtp (1/4) = ''325000''"
  by (simp add: generateOtp_def string_of_nat.simps digit_char_def)

lemma example_forgot_eq:
  "example_forgot =
      \<lparr>users = [\<lparr>uid = 1, email = ''a@x.com'', role = USER, firstName = None, lastName = None,
                 isVerified = True, verifiedAt = Some 1000, password = Bcrypt ''s1'' ''secret1''\<rparr>],
       next_id = 2, redis = [reset_key ''a@x.com'' \<mapsto> (''325000'', Some 1300)],
       clock = 1000, db_down = False, redis_down = False, mail_down = False,
       outbox = [(''a@x.com'', ''Verify your email'', ''550000''),
                 (''a@x.com'', ''Reset your password'', ''325000'')], errlog = []\<rparr>"
  by (simp add: example_forgot_def forgotPassword_def findUnique_email_def redis_set_def
      send_and_catch_def Let_def example_verified_eq example_config_def example_draws_reset_def
      generateOtp_quarter)

theorem resetPassword_overwrites_hash_only_witness:
  "\<not> db_down example_forgot \<and> \<not> redis_down example_forgot \<and> ''325000'' \<noteq> [] \<and>
   redis_get (reset_key ''a@x.com'') example_forgot = Inr (Some ''325000'') \<and>
   find (\<lambda>u. email u = ''a@x.com'') (users example_forgot) \<noteq> None \<and>
   fst (resetPassword example_draws_reset ''a@x.com'' ''325000'' ''secret2'' example_forgot) =
     Inr ''Password reset successfully'' \<and>
   users (snd (resetPassword example_draws_reset ''a@x.com'' ''325000'' ''secret2''
       example_forgot)) =
     [\<lparr>uid = 1, email = ''a@x.com'', role = USER, firstName = None, lastName = None,
       isVerified = True, verifiedAt = Some 1000, password = Bcrypt ''s2'' ''secret2''\<rparr>] \<and>
   redis_get (reset_key ''a@x.com'')
     (snd (resetPassword example_draws_reset ''a@x.com'' ''325000'' ''secret2'' example_forgot)) =
     Inr None \<and>
   validateUser ''a@x.com'' ''secret1''
     (snd (resetPassword example_draws_reset ''a@x.com'' ''325000'' ''secret2'' example_forgot)) =
     Inr None"
proof -
  let ?s' = "snd (resetPassword example_draws_reset ''a@x.com'' ''325000'' ''secret2''
      example_forgot)"
  have h: "\<not> db_down example_forgot" "\<not> redis_down example_forgot"
    "redis_get (reset_key ''a@x.com'') example_forgot = Inr (Some ''325000'')"
    "find (\<lambda>u. email u = ''a@x.com'') (users example_forgot) \<noteq> None"
    by (simp_all add: example_forgot_eq redis_get_def)
  note reset = resetPassword_overwrites_hash_only [where rnd = example_draws_reset
      and em = "''a@x.com''" and otp = "''325000''" and newPassword = "''secret2''"
      and s = example_forgot and m = "''Password reset successfully''"]
  from reset h have ok: "fst (resetPassword example_draws_reset ''a@x.com'' ''325000''
      ''secret2'' example_forgot) = Inr ''Password reset successfully''"
    by simp
  with reset have s': "?s' = example_forgot\<lparr>users := map (\<lambda>u. if email u = ''a@x.com''
        then u\<lparr>password := bcrypt_hash ''secret2'' (salt example_draws_reset)\<rparr> else u)
          (users example_forgot),
        redis := (redis example_forgot)(reset_key ''a@x.com'' := None)\<rparr>"
    and g: "redis_get (reset_key ''a@x.com'') ?s' = Inr None"
    by blast+
  have u: "users ?s' =
     [\<lparr>uid = 1, email = ''a@x.com'', role = USER, firstName = None, lastName = None,
       isVerified = True, verifiedAt = Some 1000, password = Bcrypt ''s2'' ''secret2''\<rparr>]"
    unfolding s' by (simp add: example_forgot_eq example_draws_reset_def bcrypt_hash_def)
  have old: "validateUser ''a@x.com'' ''secret1'' ?s' = Inr None"
    unfolding s'
    by (simp add: validateUser_def findUnique_email_def example_forgot_eq
        example_draws_reset_def)
  from h ok u g old show ?thesis by simp
qed

section \<open>Errors of the stores\<close>

text \<open>
  Claim C7, as the code has it. An error of a store propagates out of
  \<^verbatim>\<open>register\<close>, \<^verbatim>\<open>validateUser\<close>, \<^verbatim>\<open>forgotPassword\<close>,
  \<^verbatim>\<open>verifyEmail\<close> and \<^verbatim>\<open>resetPassword\<close> as the error the store raised,
  which is none of the failures of the domain. \<^verbatim>\<open>refreshToken\<close> is the
  exception: its lookup of the account runs inside the \<^verbatim>\<open>try\<close> block, so an
  error of the store there is caught and reported as
  \<^verbatim>\<open>UnauthorizedException('Invalid refresh token')\<close>.
\<close>

theorem store_errors_propagate_except_refresh:
  "(db_down s \<longrightarrow>
      register cfg rnd em pw fname lname s = (Inl (PrismaError ConnectionError), s) \<and>
      forgotPassword cfg rnd em s = (Inl (PrismaError ConnectionError), s) \<and>
      validateUser em pw s = Inl (PrismaError ConnectionError)) \<and>
   (redis_down s \<longrightarrow>
      verifyEmail em otp s = (Inl RedisError, s) \<and>
      resetPassword rnd em otp pw s = (Inl RedisError, s)) \<and>
   (db_down s \<and> redis_get (verify_key em) s = Inr (Some otp) \<and> otp \<noteq> [] \<longrightarrow>
      verifyEmail em otp s = (Inl (PrismaError ConnectionError), s)) \<and>
   (db_down s \<and> redis_get (reset_key em) s = Inr (Some otp) \<and> otp \<noteq> [] \<longrightarrow>
      resetPassword rnd em otp pw s = (Inl (PrismaError ConnectionError), s)) \<and>
   (\<not> db_down s \<and> redis_down s \<and> find (\<lambda>u. email u = em) (users s) = None \<longrightarrow>
      fst (register cfg rnd em pw fname lname s) = Inl RedisError) \<and>
   (\<not> db_down s \<and> redis_down s \<and> find (\<lambda>u. email u = em) (users s) \<noteq> None \<longrightarrow>
      forgotPassword cfg rnd em s = (Inl RedisError, s)) \<and>
   \<not> domain_failure (PrismaError ConnectionError) \<and> \<not> domain_failure RedisError \<and>
   (db_down s \<and> jwt_verify (JWT_SECRET cfg) (clock s) tok \<noteq> None \<longrightarrow>
      refreshToken cfg tok s = Inl (UnauthorizedException ''Invalid refresh token''))"
proof (intro conjI impI)
  assume "db_down s"
  then show "register cfg rnd em pw fname lname s = (Inl (PrismaError ConnectionError), s)"
    "forgotPassword cfg rnd em s = (Inl (PrismaError ConnectionError), s)"
    "validateUser em pw s = Inl (PrismaError ConnectionError)"
    by (simp_all add: register_def register_lookup_def forgotPassword_def validateUser_def
        findUnique_email_def)
next
  assume "redis_down s"
  then show "verifyEmail em otp s = (Inl RedisError, s)"
    "resetPassword rnd em otp pw s = (Inl RedisError, s)"
    by (simp_all add: verifyEmail_def resetPassword_def redis_get_def)
next
  assume "db_down s \<and> redis_get (verify_key em) s = Inr (Some otp) \<and> otp \<noteq> []"
  then show "verifyEmail em otp s = (Inl (PrismaError ConnectionError), s)"
    by (simp add: verifyEmail_def falsy_def user_update_def)
next
  assume "db_down s \<and> redis_get (reset_key em) s = Inr (Some otp) \<and> otp \<noteq> []"
  then show "resetPassword rnd em otp pw s = (Inl (PrismaError ConnectionError), s)"
    by (simp add: resetPassword_def falsy_def user_update_def)
next
  assume "\<not> db_down s \<and> redis_down s \<and> find (\<lambda>u. email u = em) (users s) = None"
  then show "fst (register cfg rnd em pw fname lname s) = Inl RedisError"
    by (simp add: register_def register_lookup_def register_create_def register_otp_def
        findUnique_email_def user_create_def redis_set_def Let_def)
next
  assume "\<not> db_down s \<and> redis_down s \<and> find (\<lambda>u. email u = em) (users s) \<noteq> None"
  then show "forgotPassword cfg rnd em s = (Inl RedisError, s)"
    by (auto simp: forgotPassword_def findUnique_email_def redis_set_def Let_def)
next
  show "\<not> domain_failure (PrismaError ConnectionError)" "\<not> domain_failure RedisError"
    by simp_all
next
  assume "db_down s \<and> jwt_verify (JWT_SECRET cfg) (clock s) tok \<noteq> None"
  then show "refreshToken cfg tok s = Inl (UnauthorizedException ''Invalid refresh token'')"
    by (auto simp: refreshToken_def findUnique_id_def)
qed

text \<open>
  The refresh token of the run verifies and its account exists, but the database is
  down: the lookup fails with a connection error and \<^verbatim>\<open>refreshToken\<close> reports
  an \<open>Unauthenticated\<close> failure of the domain.
\<close>

theorem refreshToken_hides_store_error:
  "db_down (example_verified\<lparr>db_down := True\<rparr>) \<and>
   jwt_verify (JWT_SECRET example_config) (clock (example_verified\<lparr>db_down := True\<rparr>))
     example_refresh_token = Some (Payload 1 ''a@x.com'' USER True) \<and>
   findUnique_id 1 (example_verified\<lparr>db_down := True\<rparr>) = Inl (PrismaError ConnectionError) \<and>
   refreshToken example_config example_refresh_token (example_verified\<lparr>db_down := True\<rparr>) =
     Inl (UnauthorizedException ''Invalid refresh token'') \<and>
   domain_failure (UnauthorizedException ''Invalid refresh token'') \<and>
   Unauthenticated (UnauthorizedException ''Invalid refresh token'')"
  by (simp add: refreshToken_def findUnique_id_def example_config_def example_verified_eq
      example_refresh_token_def)


theorem store_errors_propagate_except_refresh_witness:
  "db_down (example_registered\<lparr>db_down := True\<rparr>) \<and>
   redis_get (verify_key ''a@x.com'') (example_registered\<lparr>db_down := True\<rparr>) =
     Inr (Some ''550000'') \<and>
   register example_config example_draws ''b@x.com'' ''secret3'' None None
       (example_registered\<lparr>db_down := True\<rparr>) =
     (Inl (PrismaError ConnectionError), example_registered\<lparr>db_down := True\<rparr>) \<and>
   forgotPassword example_config example_draws ''a@x.com''
       (example_registered\<lparr>db_down := True\<rparr>) =
     (Inl (PrismaError ConnectionError), example_registered\<lparr>db_down := True\<rparr>) \<and>
   verifyEmail ''a@x.com'' ''550000'' (example_registered\<lparr>db_down := True\<rparr>) =
     (Inl (PrismaError ConnectionError), example_registered\<lparr>db_down := True\<rparr>) \<and>
   redis_down (example_registered\<lparr>redis_down := True\<rparr>) \<and>
   verifyEmail ''a@x.com'' ''550000'' (example_registered\<lparr>redis_down := True\<rparr>) =
     (Inl RedisError, example_registered\<lparr>redis_down := True\<rparr>) \<and>
   forgotPassword example_config example_draws ''a@x.com''
       (example_registered\<lparr>redis_down := True\<rparr>) =
     (Inl RedisError, example_registered\<lparr>redis_down := True\<rparr>) \<and>
   db_down (example_verified\<lparr>db_down := True\<rparr>) \<and>
   jwt_verify (JWT_SECRET example_config) (clock (example_verified\<lparr>db_down := True\<rparr>))
     example_refresh_token \<noteq> None \<and>
   refreshToken example_config example_refresh_token (example_verified\<lparr>db_down := True\<rparr>) =
     Inl (UnauthorizedException ''Invalid refresh token'')"
proof -
  let ?d = "example_registered\<lparr>db_down := True\<rparr>"
  let ?r = "example_registered\<lparr>redis_down := True\<rparr>"
  let ?v = "example_verified\<lparr>db_down := True\<rparr>"
  have d: "db_down ?d" "redis_get (verify_key ''a@x.com'') ?d = Inr (Some ''550000'')"
    "''550000'' \<noteq> []"
    by (simp_all add: redis_get_def example_registered_eq)
  have r: "redis_down ?r" "\<not> db_down ?r"
    "find (\<lambda>u. email u = ''a@x.com'') (users ?r) \<noteq> None"
    by (simp_all add: example_registered_eq)
  have v: "db_down ?v"
    "jwt_verify (JWT_SECRET example_config) (clock ?v) example_refresh_token \<noteq> None"
    by (simp_all add: example_config_def example_verified_eq example_refresh_token_def)
  from store_errors_propagate_except_refresh [where s = ?d and cfg = example_config
      and rnd = example_draws and em = "''b@x.com''" and pw = "''secret3''" and fname = None
      and lname = None] d(1)
  have A: "register example_config example_draws ''b@x.com'' ''secret3'' None None ?d =
      (Inl (PrismaError ConnectionError), ?d)"
    by blast
  from store_errors_propagate_except_refresh [where s = ?d and cfg = example_config
      and rnd = example_draws and em = "''a@x.com''" and otp = "''550000''"] d
  have B: "forgotPassword example_config example_draws ''a@x.com'' ?d =
      (Inl (PrismaError ConnectionError), ?d)"
    "verifyEmail ''a@x.com'' ''550000'' ?d = (Inl (PrismaError ConnectionError), ?d)"
    by blast+
  from store_errors_propagate_except_refresh [where s = ?r and cfg = example_config
      and rnd = example_draws and em = "''a@x.com''" and otp = "''550000''"] r
  have C: "verifyEmail ''a@x.com'' ''550000'' ?r = (Inl RedisError, ?r)"
    "forgotPassword example_config example_draws ''a@x.com'' ?r = (Inl RedisError, ?r)"
    by blast+
  from store_errors_propagate_except_refresh [where s = ?v and cfg = example_config
      and tok = example_refresh_token] v
  have D: "refreshToken example_config example_refresh_token ?v =
      Inl (UnauthorizedException ''Invalid refresh token'')"
    by blast
  from d(1,2) r(1) v A B C D show ?thesis by simp
qed

section \<open>Registering the same email twice\<close>

text \<open>Run alone, the three steps of a call are \<open>register\<close>.\<close>

lemma register_as_steps:
  "(case register_step cfg rnd em pw fname lname AtLookup s of (c1, s1) \<Rightarrow>
     case register_step cfg rnd em pw fname lname c1 s1 of (c2, s2) \<Rightarrow>
       register_step cfg rnd em pw fname lname c2 s2) =
   (Returned (fst (register cfg rnd em pw fname lname s)),
    snd (register cfg rnd em pw fname lname s))"
  by (auto simp: register_step_def register_def split: sum.splits prod.splits)

text \<open>Two calls in turn: the second is refused by its lookup.\<close>

lemma register_twice_in_turn:
  assumes "\<not> db_down s" and "\<not> redis_down s"
    and "find (\<lambda>u. email u = em) (users s) = None"
  shows "fst (register cfg rnd em pw fname lname s) =
       Inr ''User registered. Please check email for OTP.'' \<and>
     register cfg rnd' em pw' fname' lname' (snd (register cfg rnd em pw fname lname s)) =
       (Inl Conflict, snd (register cfg rnd em pw fname lname s)) \<and>
     register_lookup em (snd (register cfg rnd em pw fname lname s)) = Inl Conflict \<and>
     run_two (register_step cfg rnd em pw fname lname)
         (register_step cfg rnd' em pw' fname' lname')
         [True, True, True, False, False, False] (AtLookup, AtLookup, s) =
       (Returned (Inr ''User registered. Please check email for OTP.''),
        Returned (Inl Conflict),
        snd (register cfg rnd em pw fname lname s))"
proof -
  let ?s' = "snd (register cfg rnd em pw fname lname s)"
  let ?row = "\<lparr>uid = next_id s, email = em, role = USER, firstName = fname,
     lastName = lname, isVerified = False, verifiedAt = None,
     password = bcrypt_hash pw (salt rnd)\<rparr>"
  from assms have c: "register_create rnd em pw fname lname s =
      (Inr ?row, s\<lparr>users := users s @ [?row], next_id := Suc (next_id s)\<rparr>)"
    by (simp add: register_create_def user_create_def Let_def)
  from assms have l: "register_lookup em s = Inr ()"
    by (simp add: register_lookup_def findUnique_email_def)
  have r: "register cfg rnd em pw fname lname s =
      register_otp cfg rnd ?row (s\<lparr>users := users s @ [?row], next_id := Suc (next_id s)\<rparr>)"
    by (simp add: register_def l c)
  have ok: "fst (register cfg rnd em pw fname lname s) =
      Inr ''User registered. Please check email for OTP.''"
    using assms unfolding r by (simp add: register_otp_def Let_def redis_set_def split: option.splits)
  have up: "\<not> db_down ?s'" and found: "find (\<lambda>u. email u = em) (users ?s') \<noteq> None"
    using assms unfolding r
    by (simp_all add: register_otp_def Let_def redis_set_def find_email_append
        split: option.splits)
  from up found have l': "register_lookup em ?s' = Inl Conflict"
    by (auto simp: register_lookup_def findUnique_email_def)
  then have again: "register cfg rnd' em pw' fname' lname' ?s' = (Inl Conflict, ?s')"
    by (simp add: register_def)
  have A: "register_step cfg rnd em pw fname lname AtLookup s = (AtCreate, s)"
    by (simp add: register_step_def l)
  have B: "register_step cfg rnd em pw fname lname AtCreate s =
      (AtOtp ?row, s\<lparr>users := users s @ [?row], next_id := Suc (next_id s)\<rparr>)"
    by (simp add: register_step_def c)
  have C: "register_step cfg rnd em pw fname lname (AtOtp ?row)
        (s\<lparr>users := users s @ [?row], next_id := Suc (next_id s)\<rparr>) =
      (Returned (Inr ''User registered. Please check email for OTP.''), ?s')"
    using ok unfolding r by (auto simp: register_step_def split: prod.splits)
  have D: "register_step cfg rnd' em pw' fname' lname' AtLookup ?s' =
      (Returned (Inl Conflict), ?s')"
    by (simp add: register_step_def l')
  have E: "register_step cfg rnd' em pw' fname' lname' (Returned x) ?s' = (Returned x, ?s')"
    for x
    by (simp add: register_step_def)
  have run: "run_two (register_step cfg rnd em pw fname lname)
         (register_step cfg rnd' em pw' fname' lname')
         [True, True, True, False, False, False] (AtLookup, AtLookup, s) =
       (Returned (Inr ''User registered. Please check email for OTP.''),
        Returned (Inl Conflict), ?s')"
    by (simp add: A B C D E)
  from ok again l' run show ?thesis by simp
qed


text \<open>Two calls under any schedule.\<close>

lemma before_create_not_created: "before_create c \<Longrightarrow> not_created c"
  by (cases c) simp_all

lemma register_otp_up:
  assumes "\<not> redis_down s"
  shows "fst (register_otp cfg rnd u s) = Inr ''User registered. Please check email for OTP.''"
    and "users (snd (register_otp cfg rnd u s)) = users s"
    and "db_down (snd (register_otp cfg rnd u s)) = db_down s"
    and "redis_down (snd (register_otp cfg rnd u s)) = redis_down s"
  using assms
  by (simp_all add: register_otp_def Let_def redis_set_def split: option.splits)

text \<open>One step of a call for \<open>em\<close>, by what the call has achieved.\<close>

lemma register_step_before_create:
  assumes "\<not> db_down s" and "\<not> redis_down s" and "before_create c"
    and "find (\<lambda>u. email u = em) (users s) = None"
    and "register_step cfg rnd em pw fname lname c s = (c', s')"
  shows "\<not> db_down s' \<and> \<not> redis_down s' \<and>
     ((before_create c' \<and> s' = s) \<or>
      (created_row c' \<and> find (\<lambda>u. email u = em) (users s') \<noteq> None))"
proof (cases c)
  case AtLookup
  with assms show ?thesis
    by (auto simp: register_step_def register_lookup_def findUnique_email_def)
next
  case AtCreate
  with assms show ?thesis
    by (auto simp: register_step_def register_create_def user_create_def Let_def
        find_email_append)
next
  case (AtOtp u)
  with assms show ?thesis by simp
next
  case (Returned r)
  with assms show ?thesis by simp
qed

lemma register_step_not_created:
  assumes "\<not> db_down s" and "\<not> redis_down s" and "not_created c"
    and "find (\<lambda>u. email u = em) (users s) \<noteq> None"
    and "register_step cfg rnd em pw fname lname c s = (c', s')"
  shows "not_created c' \<and> s' = s"
proof (cases c)
  case AtLookup
  with assms show ?thesis
    by (auto simp: register_step_def register_lookup_def findUnique_email_def)
next
  case AtCreate
  with assms show ?thesis
    by (auto simp: register_step_def register_create_def user_create_def)
next
  case (AtOtp u)
  with assms show ?thesis by simp
next
  case (Returned r)
  with assms show ?thesis by (auto simp: register_step_def)
qed

lemma register_step_created_row:
  assumes "\<not> db_down s" and "\<not> redis_down s" and "created_row c"
    and "register_step cfg rnd em pw fname lname c s = (c', s')"
  shows "created_row c' \<and> users s' = users s \<and> \<not> db_down s' \<and> \<not> redis_down s'"
proof (cases c)
  case AtLookup
  with assms show ?thesis by simp
next
  case AtCreate
  with assms show ?thesis by simp
next
  case (AtOtp u)
  with assms register_otp_up [OF assms(2), of cfg rnd u] show ?thesis
    by (auto simp: register_step_def split: prod.splits)
next
  case (Returned r)
  with assms show ?thesis by (auto simp: register_step_def)
qed

lemma race_inv_step_A:
  assumes "race_inv em (a, b, s)"
    and "register_step cfg rnd em pw fname lname a s = (a', s')"
  shows "race_inv em (a', b, s')"
proof (cases "find (\<lambda>u. email u = em) (users s) = None")
  case True
  with assms(1) have up: "\<not> db_down s" "\<not> redis_down s"
    and bc: "before_create a" "before_create b"
    by (simp_all add: race_inv_def)
  from register_step_before_create [OF up bc(1) True assms(2)]
    before_create_not_created [OF bc(2)] bc(2) True
  show ?thesis
    by (auto simp: race_inv_def)
next
  case False
  with assms(1) have up: "\<not> db_down s" "\<not> redis_down s"
    and w: "(created_row a \<and> not_created b) \<or> (created_row b \<and> not_created a)"
    by (simp_all add: race_inv_def)
  from w show ?thesis
  proof
    assume "created_row a \<and> not_created b"
    with register_step_created_row [OF up _ assms(2)] False show ?thesis
      by (auto simp: race_inv_def)
  next
    assume "created_row b \<and> not_created a"
    with register_step_not_created [OF up _ False assms(2)] False up show ?thesis
      by (auto simp: race_inv_def)
  qed
qed

lemma race_inv_swap: "race_inv em (a, b, s) = race_inv em (b, a, s)"
  by (auto simp: race_inv_def)

lemma race_inv_step_B:
  assumes "race_inv em (a, b, s)"
    and "register_step cfg rnd em pw fname lname b s = (b', s')"
  shows "race_inv em (a, b', s')"
  using race_inv_step_A [of em b a s cfg rnd pw fname lname b' s'] assms
  by (simp add: race_inv_swap)

lemma race_inv_run_two:
  "race_inv em conf \<Longrightarrow>
   race_inv em (run_two (register_step cfg rnd em pw fname lname)
     (register_step cfg rnd' em pw' fname' lname') sched conf)"
proof (induction sched arbitrary: conf)
  case Nil
  then show ?case by simp
next
  case (Cons pick sched)
  obtain a b s where conf: "conf = (a, b, s)"
    by (cases conf) auto
  show ?case
  proof (cases pick)
    case True
    obtain a' s' where st: "register_step cfg rnd em pw fname lname a s = (a', s')"
      by (cases "register_step cfg rnd em pw fname lname a s") auto
    from race_inv_step_A [OF Cons.prems [unfolded conf] st]
    have "race_inv em (a', b, s')" .
    from Cons.IH [OF this] True st conf show ?thesis by simp
  next
    case False
    obtain b' s' where st: "register_step cfg rnd' em pw' fname' lname' b s = (b', s')"
      by (cases "register_step cfg rnd' em pw' fname' lname' b s") auto
    from race_inv_step_B [OF Cons.prems [unfolded conf] st]
    have "race_inv em (a, b', s')" .
    from Cons.IH [OF this] False st conf show ?thesis by simp
  qed
qed

lemma race_inv_returned:
  assumes "race_inv em (Returned ra, Returned rb, s)"
  shows "(ra = Inr ''User registered. Please check email for OTP.'' \<and>
        (rb = Inl Conflict \<or> rb = Inl (PrismaError P2002))) \<or>
     (rb = Inr ''User registered. Please check email for OTP.'' \<and>
        (ra = Inl Conflict \<or> ra = Inl (PrismaError P2002)))"
  using assms by (auto simp: race_inv_def split: if_splits)

text \<open>The two calls of the run for \<^verbatim>\<open>a@x.com\<close>, the second looking the email up
  before the first has created its row.\<close>

lemma example_race_run:
  "run_two (register_step example_config example_draws ''a@x.com'' ''secret1'' None None)
       (register_step example_config example_draws_reset ''a@x.com'' ''secret2'' None None)
       [True, False, True, False, True, False] (AtLookup, AtLookup, example_state) =
     (Returned (Inr ''User registered. Please check email for OTP.''),
      Returned (Inl (PrismaError P2002)), example_registered)"
proof -
  let ?A = "register_step example_config example_draws ''a@x.com'' ''secret1'' None None"
  let ?B = "register_step example_config example_draws_reset ''a@x.com'' ''secret2'' None None"
  let ?row = "\<lparr>uid = 1, email = ''a@x.com'', role = USER, firstName = None, lastName = None,
     isVerified = False, verifiedAt = None, password = Bcrypt ''s1'' ''secret1''\<rparr>"
  let ?s1 = "example_state\<lparr>users := [?row], next_id := 2\<rparr>"
  have a1: "?A AtLookup example_state = (AtCreate, example_state)"
    by (simp add: register_step_def register_lookup_def findUnique_email_def example_state_def)
  have b1: "?B AtLookup example_state = (AtCreate, example_state)"
    by (simp add: register_step_def register_lookup_def findUnique_email_def example_state_def)
  have a2: "?A AtCreate example_state = (AtOtp ?row, ?s1)"
    by (simp add: register_step_def register_create_def user_create_def Let_def bcrypt_hash_def
        example_state_def example_draws_def)
  have b2: "?B AtCreate ?s1 = (Returned (Inl (PrismaError P2002)), ?s1)"
    by (simp add: register_step_def register_create_def user_create_def example_state_def)
  have a3: "?A (AtOtp ?row) ?s1 =
      (Returned (Inr ''User registered. Please check email for OTP.''), example_registered)"
    by (simp add: register_step_def register_otp_def redis_set_def send_and_catch_def Let_def
        example_state_def example_config_def example_draws_def generateOtp_half
        example_registered_eq)
  have b3: "?B (Returned (Inl (PrismaError P2002))) example_registered =
      (Returned (Inl (PrismaError P2002)), example_registered)"
    by (simp add: register_step_def)
  show ?thesis
    by (simp only: run_two.simps a1 b1 a2 b2 a3 b3 if_True if_False prod.case)
qed

text \<open>
  Claim C3, as the code has it. Two calls of \<^verbatim>\<open>register\<close> for the same email
  run at once, on stores that answer and with no account for the email before. Under
  every schedule of their steps that lets both return, exactly one succeeds and the
  other fails, with \<^verbatim>\<open>BadRequestException('User already exists')\<close> or with the
  uniqueness error of the store. \<open>Conflict\<close> is raised by the lookup of the email at
  the start of \<^verbatim>\<open>register\<close>, before any row is created: this is what refuses
  the second call when it starts after the first has returned.
\<close>

theorem register_twice_one_success:
  assumes "\<not> db_down s" and "\<not> redis_down s"
    and "find (\<lambda>u. email u = em) (users s) = None"
  shows "(run_two (register_step cfg rnd em pw fname lname)
          (register_step cfg rnd' em pw' fname' lname') sched (AtLookup, AtLookup, s) =
        (Returned ra, Returned rb, s') \<longrightarrow>
        (ra = Inr ''User registered. Please check email for OTP.'' \<and>
           (rb = Inl Conflict \<or> rb = Inl (PrismaError P2002))) \<or>
        (rb = Inr ''User registered. Please check email for OTP.'' \<and>
           (ra = Inl Conflict \<or> ra = Inl (PrismaError P2002)))) \<and>
     fst (register cfg rnd em pw fname lname s) =
       Inr ''User registered. Please check email for OTP.'' \<and>
     register cfg rnd' em pw' fname' lname' (snd (register cfg rnd em pw fname lname s)) =
       (Inl Conflict, snd (register cfg rnd em pw fname lname s)) \<and>
     register_lookup em (snd (register cfg rnd em pw fname lname s)) = Inl Conflict \<and>
     run_two (register_step cfg rnd em pw fname lname)
         (register_step cfg rnd' em pw' fname' lname')
         [True, True, True, False, False, False] (AtLookup, AtLookup, s) =
       (Returned (Inr ''User registered. Please check email for OTP.''),
        Returned (Inl Conflict),
        snd (register cfg rnd em pw fname lname s))"
proof (intro conjI impI)
  assume run: "run_two (register_step cfg rnd em pw fname lname)
      (register_step cfg rnd' em pw' fname' lname') sched (AtLookup, AtLookup, s) =
    (Returned ra, Returned rb, s')"
  from assms have "race_inv em (AtLookup, AtLookup, s)"
    by (simp add: race_inv_def)
  from race_inv_run_two [OF this, of cfg rnd pw fname lname rnd' pw' fname' lname' sched]
  have "race_inv em (Returned ra, Returned rb, s')"
    by (simp add: run)
  then show "(ra = Inr ''User registered. Please check email for OTP.'' \<and>
        (rb = Inl Conflict \<or> rb = Inl (PrismaError P2002))) \<or>
     (rb = Inr ''User registered. Please check email for OTP.'' \<and>
        (ra = Inl Conflict \<or> ra = Inl (PrismaError P2002)))"
    by (rule race_inv_returned)
next
  note turn = register_twice_in_turn [OF assms, of cfg rnd pw fname lname rnd' pw' fname' lname']
  from turn show "fst (register cfg rnd em pw fname lname s) =
      Inr ''User registered. Please check email for OTP.''"
    by blast
  from turn show "register cfg rnd' em pw' fname' lname'
      (snd (register cfg rnd em pw fname lname s)) =
    (Inl Conflict, snd (register cfg rnd em pw fname lname s))"
    by blast
  from turn show "register_lookup em (snd (register cfg rnd em pw fname lname s)) =
      Inl Conflict"
    by blast
  from turn show "run_two (register_step cfg rnd em pw fname lname)
       (register_step cfg rnd' em pw' fname' lname')
       [True, True, True, False, False, False] (AtLookup, AtLookup, s) =
     (Returned (Inr ''User registered. Please check email for OTP.''),
      Returned (Inl Conflict), snd (register cfg rnd em pw fname lname s))"
    by blast
qed

theorem register_twice_one_success_witness:
  "\<not> db_down example_state \<and> \<not> redis_down example_state \<and>
   find (\<lambda>u. email u = ''a@x.com'') (users example_state) = None \<and>
   run_two (register_step example_config example_draws ''a@x.com'' ''secret1'' None None)
       (register_step example_config example_draws_reset ''a@x.com'' ''secret2'' None None)
       [True, False, True, False, True, False] (AtLookup, AtLookup, example_state) =
     (Returned (Inr ''User registered. Please check email for OTP.''),
      Returned (Inl (PrismaError P2002)), example_registered) \<and>
   fst (register example_config example_draws ''a@x.com'' ''secret1'' None None example_state) =
     Inr ''User registered. Please check email for OTP.'' \<and>
   register example_config example_draws_reset ''a@x.com'' ''secret2'' None None
       example_registered =
     (Inl Conflict, example_registered) \<and>
   register_lookup ''a@x.com'' example_registered = Inl Conflict \<and>
   run_two (register_step example_config example_draws ''a@x.com'' ''secret1'' None None)
       (register_step example_config example_draws_reset ''a@x.com'' ''secret2'' None None)
       [True, True, True, False, False, False] (AtLookup, AtLookup, example_state) =
     (Returned (Inr ''User registered. Please check email for OTP.''),
      Returned (Inl Conflict), example_registered)"
proof -
  have h: "\<not> db_down example_state" "\<not> redis_down example_state"
    "find (\<lambda>u. email u = ''a@x.com'') (users example_state) = None"
    by (simp_all add: example_state_def)
  from register_twice_one_success [OF h, of example_config example_draws "''secret1''" None
      None example_draws_reset "''secret2''" None None
      "[True, False, True, False, True, False]"
      "Inr ''User registered. Please check email for OTP.''" "Inl (PrismaError P2002)"
      example_registered] h example_race_run
  show ?thesis by (simp add: example_registered_def)
qed

text \<open>
  When the second call looks the email up before the first has created its row, both
  lookups find nothing; the second \<^verbatim>\<open>create\<close> then violates the uniqueness of
  the email, and the error of the store, not \<open>Conflict\<close>, is what the second call
  fails with.
\<close>

theorem register_race_not_conflict:
  "run_two (register_step example_config example_draws ''a@x.com'' ''secret1'' None None)
       (register_step example_config example_draws_reset ''a@x.com'' ''secret2'' None None)
       [True, False, True, False, True, False] (AtLookup, AtLookup, example_state) =
     (Returned (Inr ''User registered. Please check email for OTP.''),
      Returned (Inl (PrismaError P2002)), example_registered) \<and>
   PrismaError P2002 \<noteq> Conflict"
  using example_race_run by simp

end
